theory Spec2Isabelle
  imports Main "HOL-Library.AList" "HOL-Library.Multiset"
begin

section \<open>GHCR clean-up tool: data model\<close>

text \<open>
  The dictionaries of \<^verbatim>\<open>build/scripts/ghcr.py\<close>, with the keys their
  \<^verbatim>\<open>TypedDict\<close> declarations require. The key \<^verbatim>\<open>id\<close> is the field
  \<open>id_key\<close>, since \<open>id\<close> is the identity function of HOL.
\<close>

record ContainerMetadata =
  tags :: "string list"

record VersionMetadata =
  container :: ContainerMetadata

record PackageVersion =
  id_key :: int
  name :: "string option"
  url :: string
  package_html_url :: string
  created_at :: string
  updated_at :: string
  html_url :: string
  metadata :: VersionMetadata

datatype action_kind = Keep | Delete

text \<open>
  The reason strings of \<^verbatim>\<open>find_versions_to_clean\<close>, one constructor for each string
  literal of the source, carrying the value the f-string interpolates:
  \<^item> \<open>MarkedByAllFlag\<close>: "Marked for deletion by --all=yes-remove-all flag";
  \<^item> \<open>TaggedOlderThan d\<close>: "Tagged version older than 'd'" (the time delta, in microseconds);
  \<^item> \<open>MatchesKeepPattern p\<close>: "Tagged version matches keep pattern 'p'";
  \<^item> \<open>TaggedNewerThan d\<close>: "Tagged version newer than 'd'";
  \<^item> \<open>MatchesKeptVersion k\<close>: "Untagged version matches timestamp of kept version k";
  \<^item> \<open>OrphanVersion\<close>: "Orphan version".
\<close>

datatype reason_text =
    MarkedByAllFlag
  | TaggedOlderThan int
  | MatchesKeepPattern string
  | TaggedNewerThan int
  | MatchesKeptVersion int
  | OrphanVersion

record CleanupAction =
  version :: PackageVersion
  action :: action_kind
  reason :: reason_text

text \<open>The exceptions the modelled code can raise.\<close>

datatype error =
    OverflowError
  | ReError
  | ValueError
  | TypeError
  | AuthenticationError
  | ConnectionError
  | HTTPError nat
  | SystemExit int

section \<open>The parts of the Python library the code calls\<close>

text \<open>
  A \<^verbatim>\<open>datetime\<close> is a number of microseconds since 0001-01-01T00:00:00: for an aware
  value the UTC instant, for a naive one the wall-clock reading. Python refuses to
  compare or subtract a naive and an aware value (\<^verbatim>\<open>TypeError\<close>).
\<close>

datatype datetime = Naive int | Aware int

fun datetime_gt :: "datetime \<Rightarrow> datetime \<Rightarrow> error + bool" where
  "datetime_gt (Aware a) (Aware b) = Inr (a > b)"
| "datetime_gt (Naive a) (Naive b) = Inr (a > b)"
| "datetime_gt _ _ = Inl TypeError"

text \<open>\<^verbatim>\<open>abs(a - b)\<close> on two datetimes, a time delta in microseconds.\<close>

fun datetime_absdiff :: "datetime \<Rightarrow> datetime \<Rightarrow> error + int" where
  "datetime_absdiff (Aware a) (Aware b) = Inr (\<bar>a - b\<bar>)"
| "datetime_absdiff (Naive a) (Naive b) = Inr (\<bar>a - b\<bar>)"
| "datetime_absdiff _ _ = Inl TypeError"

text \<open>
  \<^verbatim>\<open>timedelta(seconds=n)\<close>: the normalised day count must have magnitude at most
  999999999, otherwise \<^verbatim>\<open>OverflowError\<close>.
\<close>

definition timedelta_seconds :: "int \<Rightarrow> error + int" where
  "timedelta_seconds n =
     (if - 999999999 \<le> n div 86400 \<and> n div 86400 \<le> 999999999
      then Inr (n * 1000000) else Inl OverflowError)"

text \<open>\<^verbatim>\<open>datetime.max\<close>, 9999-12-31T23:59:59.999999, in microseconds.\<close>

definition datetime_max :: int where
  "datetime_max = 315537897599999999"

text \<open>
  \<^verbatim>\<open>now - delta\<close> for an aware UTC datetime: \<^verbatim>\<open>OverflowError\<close> when the result
  leaves the years 1 to 9999.
\<close>

definition datetime_minus :: "int \<Rightarrow> int \<Rightarrow> error + int" where
  "datetime_minus t d =
     (if 0 \<le> t - d \<and> t - d \<le> datetime_max then Inr (t - d) else Inl OverflowError)"

text \<open>
  What the code takes from its environment and from the standard library, as parameters:
  \<^item> \<open>utcnow\<close>: the reading of \<^verbatim>\<open>datetime.now(timezone.utc)\<close>, in microseconds;
  \<^item> \<open>fromisoformat\<close>: \<^verbatim>\<open>datetime.fromisoformat\<close>, \<open>None\<close> when it raises
    \<^verbatim>\<open>ValueError\<close>;
  \<^item> \<open>re_compile\<close>: \<^verbatim>\<open>re.compile\<close>, \<open>None\<close> when it raises \<^verbatim>\<open>re.error\<close>, otherwise
    the truth value of the compiled pattern's \<^verbatim>\<open>search\<close> on a string.
\<close>

record stdlib =
  utcnow :: int
  fromisoformat :: "string \<Rightarrow> datetime option"
  re_compile :: "string \<Rightarrow> (string \<Rightarrow> bool) option"

text \<open>\<^verbatim>\<open>s.replace('Z', '+00:00')\<close>.\<close>

definition replace_Z :: "string \<Rightarrow> string" where
  "replace_Z s = concat (map (\<lambda>c. if c = CHR ''Z'' then ''+00:00'' else [c]) s)"

text \<open>\<^verbatim>\<open>datetime.fromisoformat(version['created_at'].replace('Z', '+00:00'))\<close>.\<close>

definition created_date :: "stdlib \<Rightarrow> PackageVersion \<Rightarrow> datetime option" where
  "created_date py v = fromisoformat py (replace_Z (created_at v))"

section \<open>The retention policy: \<^verbatim>\<open>find_versions_to_clean\<close>\<close>

definition get_tags :: "PackageVersion \<Rightarrow> string list" where
  "get_tags v = tags (container (metadata v))"

text \<open>\<^verbatim>\<open>re.compile(r"^git-commit-").match(tag)\<close>: the tag starts with the literal.\<close>

definition git_commit_regex_match :: "string \<Rightarrow> bool" where
  "git_commit_regex_match tag = (take 11 tag = ''git-commit-'')"

text \<open>The flag \<^verbatim>\<open>has_real_tags\<close> at the end of the body of the partition loop.\<close>

definition has_real_tags :: "PackageVersion \<Rightarrow> bool" where
  "has_real_tags v =
     (let tgs = get_tags v; real = (length tgs > 0) in
      if real \<and> length tgs = 1 \<and> git_commit_regex_match (tgs ! 0) then False else real)"

text \<open>\<^verbatim>\<open>timestamp_tolerance_seconds = 10\<close>, as \<^verbatim>\<open>timedelta(seconds=10)\<close>.\<close>

definition time_tolerance :: int where
  "time_tolerance = 10 * 1000000"

text \<open>
  The body of the loop over the tagged versions: the action appended for one version,
  and its parsed creation date. The age comparison is evaluated only when no tag
  matches the keep pattern (\<^verbatim>\<open>elif\<close>).
\<close>

definition tagged_step ::
  "stdlib \<Rightarrow> (string \<Rightarrow> bool) \<Rightarrow> string \<Rightarrow> int \<Rightarrow> int \<Rightarrow> PackageVersion
     \<Rightarrow> error + (CleanupAction \<times> datetime)" where
  "tagged_step py search keep_tags_pattern delta cutoff v =
     (case created_date py v of
        None \<Rightarrow> Inl ValueError
      | Some created \<Rightarrow>
          if list_ex search (get_tags v)
          then Inr (\<lparr>version = v, action = Keep,
                     reason = MatchesKeepPattern keep_tags_pattern\<rparr>, created)
          else (case datetime_gt created (Aware cutoff) of
                  Inl e \<Rightarrow> Inl e
                | Inr newer \<Rightarrow>
                    if newer
                    then Inr (\<lparr>version = v, action = Keep,
                               reason = TaggedNewerThan delta\<rparr>, created)
                    else Inr (\<lparr>version = v, action = Delete,
                               reason = TaggedOlderThan delta\<rparr>, created)))"

text \<open>
  The loop over the tagged versions. \<open>kept\<close> is the dictionary
  \<^verbatim>\<open>kept_tagged_versions_info\<close> in its insertion order: assigning to a key that is
  present replaces the value in place, a new key goes to the end.
\<close>

fun tagged_loop ::
  "stdlib \<Rightarrow> (string \<Rightarrow> bool) \<Rightarrow> string \<Rightarrow> int \<Rightarrow> int \<Rightarrow> PackageVersion list
     \<Rightarrow> (int \<times> datetime) list \<Rightarrow> CleanupAction list
     \<Rightarrow> error + ((int \<times> datetime) list \<times> CleanupAction list)" where
  "tagged_loop py search pat delta cutoff [] kept acts = Inr (kept, acts)"
| "tagged_loop py search pat delta cutoff (v # vs) kept acts =
     (case tagged_step py search pat delta cutoff v of
        Inl e \<Rightarrow> Inl e
      | Inr (a, created) \<Rightarrow>
          tagged_loop py search pat delta cutoff vs
            (if action a = Keep then AList.update (id_key v) created kept else kept)
            (acts @ [a]))"

text \<open>
  The inner loop over \<^verbatim>\<open>kept_tagged_versions_info.items()\<close>: the id of the first entry
  within the tolerance, where the loop breaks.
\<close>

fun find_kept :: "datetime \<Rightarrow> (int \<times> datetime) list \<Rightarrow> error + int option" where
  "find_kept orphan_created [] = Inr None"
| "find_kept orphan_created ((kept_id, kept_timestamp) # rest) =
     (case datetime_absdiff orphan_created kept_timestamp of
        Inl e \<Rightarrow> Inl e
      | Inr d \<Rightarrow> if d \<le> time_tolerance then Inr (Some kept_id)
                 else find_kept orphan_created rest)"

text \<open>The body of the loop over the potential orphans.\<close>

definition orphan_step ::
  "stdlib \<Rightarrow> (int \<times> datetime) list \<Rightarrow> PackageVersion \<Rightarrow> error + CleanupAction" where
  "orphan_step py kept v =
     (case created_date py v of
        None \<Rightarrow> Inl ValueError
      | Some orphan_created \<Rightarrow>
          (case find_kept orphan_created kept of
             Inl e \<Rightarrow> Inl e
           | Inr None \<Rightarrow> Inr \<lparr>version = v, action = Delete, reason = OrphanVersion\<rparr>
           | Inr (Some kept_id) \<Rightarrow>
               Inr \<lparr>version = v, action = Keep, reason = MatchesKeptVersion kept_id\<rparr>))"

fun orphan_loop ::
  "stdlib \<Rightarrow> (int \<times> datetime) list \<Rightarrow> PackageVersion list \<Rightarrow> CleanupAction list
     \<Rightarrow> error + CleanupAction list" where
  "orphan_loop py kept [] acts = Inr acts"
| "orphan_loop py kept (v # vs) acts =
     (case orphan_step py kept v of
        Inl e \<Rightarrow> Inl e
      | Inr a \<Rightarrow> orphan_loop py kept vs (acts @ [a]))"

text \<open>
  \<^verbatim>\<open>find_versions_to_clean(versions, tagged_max_age, keep_tags_pattern, remove_all)\<close>.
  The order of the source is kept: the short-circuit on \<^verbatim>\<open>remove_all\<close>, the partition,
  the cutoff date, the compilation of the keep pattern, the tagged versions, the
  potential orphans.
\<close>

definition find_versions_to_clean ::
  "stdlib \<Rightarrow> PackageVersion list \<Rightarrow> int \<Rightarrow> string \<Rightarrow> bool \<Rightarrow> error + CleanupAction list" where
  "find_versions_to_clean py versions tagged_max_age keep_tags_pattern remove_all =
     (if remove_all
      then Inr (map (\<lambda>v. \<lparr>version = v, action = Delete, reason = MarkedByAllFlag\<rparr>) versions)
      else
        (case partition has_real_tags versions of
           (tagged_versions, potential_orphan_versions) \<Rightarrow>
        (case timedelta_seconds tagged_max_age of
           Inl e \<Rightarrow> Inl e
         | Inr tagged_max_age_delta \<Rightarrow>
        (case datetime_minus (utcnow py) tagged_max_age_delta of
           Inl e \<Rightarrow> Inl e
         | Inr cutoff_date \<Rightarrow>
        (case re_compile py keep_tags_pattern of
           None \<Rightarrow> Inl ReError
         | Some search \<Rightarrow>
        (case tagged_loop py search keep_tags_pattern tagged_max_age_delta cutoff_date
                tagged_versions [] [] of
           Inl e \<Rightarrow> Inl e
         | Inr (kept_tagged_versions_info, cleanup_actions) \<Rightarrow>
             orphan_loop py kept_tagged_versions_info potential_orphan_versions
               cleanup_actions))))))"

text \<open>
  \<^verbatim>\<open>abs(orphan_created_date - kept_timestamp) <= time_tolerance\<close> for two versions whose
  timestamps parse and can be subtracted; false otherwise.
\<close>

definition within_tolerance :: "stdlib \<Rightarrow> PackageVersion \<Rightarrow> PackageVersion \<Rightarrow> bool" where
  "within_tolerance py orphan kept_version =
     (case (created_date py orphan, created_date py kept_version) of
        (Some x, Some y) \<Rightarrow>
          (case datetime_absdiff x y of Inl e \<Rightarrow> False | Inr d \<Rightarrow> d \<le> time_tolerance)
      | _ \<Rightarrow> False)"

text \<open>
  An entry of the dictionary \<^verbatim>\<open>kept_tagged_versions_info\<close> that belongs to an action:
  the key is the id of the action's version and the value its parsed creation date.
\<close>

definition kept_entry :: "stdlib \<Rightarrow> CleanupAction \<Rightarrow> int \<times> datetime \<Rightarrow> bool" where
  "kept_entry py a e = (fst e = id_key (version a) \<and> created_date py (version a) = Some (snd e))"

section \<open>Credentials and the registry\<close>

text \<open>
  What the program does to the outside, in order: running \<^verbatim>\<open>gh auth token\<close>, and the
  HTTP requests, each with its URL and the bearer token it sends.
\<close>

datatype event =
    RunGhAuthToken
  | HttpGet string string
  | HttpDelete string string

text \<open>
  The state around the pure code: the environment variables, what running the GitHub
  CLI gives (\<open>None\<close>: \<^verbatim>\<open>FileNotFoundError\<close>, else the return code and the standard
  output), the token cached in \<^verbatim>\<open>default_token_provider\<close>, and the events so far.
  Log lines are not modelled: \<^verbatim>\<open>logging.info\<close> changes nothing the code reads.
\<close>

record world =
  environ :: "(string \<times> string) list"
  gh_cli :: "(int \<times> string) option"
  provider_token :: "string option"
  events :: "event list"

record http_response =
  status_code :: nat
  json_body :: "PackageVersion list"
  link_header :: "string option"

text \<open>
  The \<^verbatim>\<open>requests\<close> module passed as \<^verbatim>\<open>requests_module\<close>: the answer to a GET or DELETE
  of a URL with a bearer token, or the exception the transport raises.
\<close>

record requests_module =
  http_get :: "string \<Rightarrow> string \<Rightarrow> error + http_response"
  http_delete :: "string \<Rightarrow> string \<Rightarrow> error + http_response"

text \<open>\<^verbatim>\<open>response.raise_for_status()\<close>: an \<^verbatim>\<open>HTTPError\<close> for a status from 400 to 599.\<close>

definition raise_for_status :: "http_response \<Rightarrow> error + unit" where
  "raise_for_status response =
     (if 400 \<le> status_code response \<and> status_code response < 600
      then Inl (HTTPError (status_code response)) else Inr ())"

text \<open>Python's truth value of an optional string: \<^verbatim>\<open>None\<close> and \<^verbatim>\<open>''\<close> are false.\<close>

definition truthy :: "string option \<Rightarrow> bool" where
  "truthy t = (case t of None \<Rightarrow> False | Some s \<Rightarrow> s \<noteq> [])"

text \<open>\<^verbatim>\<open>str.strip()\<close> on ASCII text: the whitespace of Python is removed at both ends.\<close>

definition is_space :: "char \<Rightarrow> bool" where
  "is_space c = (c \<in> set [CHR '' '', CHR 0x09, CHR 0x0A, CHR 0x0B, CHR 0x0C, CHR 0x0D,
                           CHR 0x1C, CHR 0x1D, CHR 0x1E, CHR 0x1F])"

definition strip :: "string \<Rightarrow> string" where
  "strip s = rev (dropWhile is_space (rev (dropWhile is_space s)))"

text \<open>
  The second method of \<^verbatim>\<open>get_token\<close>: the GitHub CLI is run; its output is the token
  when the return code is 0 and the stripped output is not empty.
\<close>

definition token_from_gh_cli :: "world \<Rightarrow> (error + string) \<times> world" where
  "token_from_gh_cli w =
     (let w1 = w\<lparr>events := events w @ [RunGhAuthToken]\<rparr> in
      case gh_cli w of
        None \<Rightarrow> (Inl AuthenticationError, w1)
      | Some (returncode, stdout) \<Rightarrow>
          if returncode = 0 \<and> strip stdout \<noteq> []
          then (Inr (strip stdout), w1\<lparr>provider_token := Some (strip stdout)\<rparr>)
          else (Inl AuthenticationError, w1))"

text \<open>
  \<^verbatim>\<open>GitHubTokenProvider.get_token\<close>: the cached token, else the variable
  \<^verbatim>\<open>GITHUB_TOKEN\<close>, else the GitHub CLI, else \<^verbatim>\<open>AuthenticationError\<close>.
\<close>

definition get_token :: "world \<Rightarrow> (error + string) \<times> world" where
  "get_token w =
     (if truthy (provider_token w) then (Inr (the (provider_token w)), w)
      else
        (let token = map_of (environ w) ''GITHUB_TOKEN'' in
         if truthy token then (Inr (the token), w\<lparr>provider_token := token\<rparr>)
         else token_from_gh_cli w))"

definition clear_token :: "world \<Rightarrow> world" where
  "clear_token w = w\<lparr>provider_token := None\<rparr>"

text \<open>\<^verbatim>\<open>str(n)\<close> for an integer, as the f-strings of the URLs use it.\<close>

fun str_nat :: "nat \<Rightarrow> string" where
  "str_nat n = (if n < 10 then [''0123456789'' ! n]
                else str_nat (n div 10) @ [''0123456789'' ! (n mod 10)])"

definition str_int :: "int \<Rightarrow> string" where
  "str_int i = (if i < 0 then CHR ''-'' # str_nat (nat (- i)) else str_nat (nat i))"

text \<open>\<^verbatim>\<open>s.split(sep)\<close> for a separator of one character.\<close>

fun split_on :: "char \<Rightarrow> string \<Rightarrow> string list" where
  "split_on sep [] = [[]]"
| "split_on sep (c # cs) =
     (if c = sep then [] # split_on sep cs
      else (case split_on sep cs of
              [] \<Rightarrow> [[c]]
            | piece # pieces \<Rightarrow> (c # piece) # pieces))"

text \<open>\<^verbatim>\<open>sub in s\<close> for strings.\<close>

fun contains :: "string \<Rightarrow> string \<Rightarrow> bool" where
  "contains sub [] = (sub = [])"
| "contains sub (c # cs) = (take (length sub) (c # cs) = sub \<or> contains sub cs)"

text \<open>
  \<^verbatim>\<open>re.search(r'<([^>]+)>', link)\<close>, the first group of the leftmost match: at a
  \<^verbatim>\<open><\<close>, the longest run of characters other than \<^verbatim>\<open>>\<close>, which must not be empty and
  must be followed by a \<^verbatim>\<open>>\<close>.
\<close>

fun angle_search :: "string \<Rightarrow> string option" where
  "angle_search [] = None"
| "angle_search (c # cs) =
     (if c = CHR ''<'' then
        (let body = takeWhile (\<lambda>x. x \<noteq> CHR ''>'') cs in
         if body \<noteq> [] \<and> length body < length cs then Some body else angle_search cs)
      else angle_search cs)"

text \<open>The literal \<^verbatim>\<open>rel="next"\<close>; the double quote is the character 0x22.\<close>

definition rel_next :: string where
  "rel_next = ''rel='' @ [CHR 0x22] @ ''next'' @ [CHR 0x22]"

text \<open>
  The page that follows a response: \<^verbatim>\<open>None\<close> without a \<^verbatim>\<open>Link\<close> header; otherwise
  the loop over the links separated by commas, where each link with
  \<open>rel_next\<close> and a match assigns \<^verbatim>\<open>next_page\<close>, so the last one stays.
\<close>

definition next_page_of :: "http_response \<Rightarrow> string option" where
  "next_page_of response =
     (case link_header response of
        None \<Rightarrow> None
      | Some hdr \<Rightarrow>
          fold (\<lambda>link next_page.
                  if contains rel_next link
                  then (case angle_search link of None \<Rightarrow> next_page | Some u \<Rightarrow> Some u)
                  else next_page)
               (split_on CHR '','' hdr) None)"

text \<open>
  The loop \<^verbatim>\<open>while next_page:\<close> of \<^verbatim>\<open>list_versions\<close>. A registry that names a next page
  for ever keeps it running: it then has no result (\<open>None\<close>).
\<close>

partial_function (option) fetch_pages ::
  "requests_module \<Rightarrow> string \<Rightarrow> string \<Rightarrow> PackageVersion list \<Rightarrow> world
     \<Rightarrow> ((error + PackageVersion list) \<times> world) option" where
  "fetch_pages req token next_page all_versions w =
     (let w1 = w\<lparr>events := events w @ [HttpGet next_page token]\<rparr> in
      case http_get req next_page token of
        Inl e \<Rightarrow> Some (Inl e, w1)
      | Inr response \<Rightarrow>
          (case raise_for_status response of
             Inl e \<Rightarrow> Some (Inl e, w1)
           | Inr _ \<Rightarrow>
               (case next_page_of response of
                  None \<Rightarrow> Some (Inr (all_versions @ json_body response), w1)
                | Some u \<Rightarrow>
                    fetch_pages req token u (all_versions @ json_body response) w1)))"

declare fetch_pages.simps [code]

definition list_versions ::
  "requests_module \<Rightarrow> string \<Rightarrow> string \<Rightarrow> world
     \<Rightarrow> ((error + PackageVersion list) \<times> world) option" where
  "list_versions req namespace package_name w =
     (case get_token w of
        (Inl e, w1) \<Rightarrow> Some (Inl e, w1)
      | (Inr token, w1) \<Rightarrow>
          fetch_pages req token
            (''https://api.github.com/'' @ namespace @ ''/packages/container/''
               @ package_name @ ''/versions?per_page=100'')
            [] w1)"

text \<open>
  \<^verbatim>\<open>remove_version\<close>: in a dry run it returns at once; otherwise it takes a token and
  sends the DELETE request.
\<close>

definition remove_version ::
  "requests_module \<Rightarrow> string \<Rightarrow> string \<Rightarrow> int \<Rightarrow> bool \<Rightarrow> world \<Rightarrow> (error + bool) \<times> world" where
  "remove_version req namespace package_name version_id dry_run w =
     (if dry_run then (Inr True, w)
      else
        (case get_token w of
           (Inl e, w1) \<Rightarrow> (Inl e, w1)
         | (Inr token, w1) \<Rightarrow>
             (let api_url = ''https://api.github.com/'' @ namespace @ ''/packages/container/''
                              @ package_name @ ''/versions/'' @ str_int version_id;
                  w2 = w1\<lparr>events := events w1 @ [HttpDelete api_url token]\<rparr> in
              case http_delete req api_url token of
                Inl e \<Rightarrow> (Inl e, w2)
              | Inr response \<Rightarrow>
                  (case raise_for_status response of
                     Inl e \<Rightarrow> (Inl e, w2)
                   | Inr _ \<Rightarrow> (Inr True, w2)))))"

text \<open>A list of events that are all GET requests.\<close>

definition only_gets :: "event list \<Rightarrow> bool" where
  "only_gets evs = list_all (\<lambda>e. case e of HttpGet u t \<Rightarrow> True | _ \<Rightarrow> False) evs"

section \<open>The command \<^verbatim>\<open>cleanup-versions\<close>\<close>

record CleanupArgs =
  namespace :: string
  package :: string
  tagged_max_age :: int
  really_remove :: bool
  keep_tags_pattern :: string
  all_flag :: "string option"

text \<open>
  The loop over \<^verbatim>\<open>to_remove\<close>: the first removal that raises ends it, and the later
  versions are not touched.
\<close>

fun remove_each ::
  "(string \<Rightarrow> string \<Rightarrow> int \<Rightarrow> bool \<Rightarrow> world \<Rightarrow> (error + bool) \<times> world)
     \<Rightarrow> string \<Rightarrow> string \<Rightarrow> bool \<Rightarrow> PackageVersion list \<Rightarrow> world \<Rightarrow> (error + unit) \<times> world" where
  "remove_each remove_version_func ns pkg dry [] w = (Inr (), w)"
| "remove_each remove_version_func ns pkg dry (v # vs) w =
     (case remove_version_func ns pkg (id_key v) dry w of
        (Inl e, w1) \<Rightarrow> (Inl e, w1)
      | (Inr _, w1) \<Rightarrow> remove_each remove_version_func ns pkg dry vs w1)"

text \<open>
  \<^verbatim>\<open>cleanup_versions_command\<close>, with its three injected functions. The key \<^verbatim>\<open>all\<close> of
  the arguments is the field \<open>all_flag\<close>; \<^verbatim>\<open>sys.exit(1)\<close> is the error \<open>SystemExit 1\<close>.
\<close>

definition cleanup_versions_command ::
  "CleanupArgs
     \<Rightarrow> (string \<Rightarrow> string \<Rightarrow> world \<Rightarrow> ((error + PackageVersion list) \<times> world) option)
     \<Rightarrow> (PackageVersion list \<Rightarrow> int \<Rightarrow> string \<Rightarrow> bool \<Rightarrow> error + CleanupAction list)
     \<Rightarrow> (string \<Rightarrow> string \<Rightarrow> int \<Rightarrow> bool \<Rightarrow> world \<Rightarrow> (error + bool) \<times> world)
     \<Rightarrow> world \<Rightarrow> ((error + unit) \<times> world) option" where
  "cleanup_versions_command args list_versions_func find_versions_func remove_version_func w =
     (let should_remove_all = (all_flag args = Some ''yes-remove-all'') in
      if all_flag args \<noteq> None \<and> \<not> should_remove_all then Some (Inl (SystemExit 1), w)
      else
        (case list_versions_func (namespace args) (package args) w of
           None \<Rightarrow> None
         | Some (Inl e, w1) \<Rightarrow> Some (Inl e, w1)
         | Some (Inr all_versions, w1) \<Rightarrow>
             (case find_versions_func all_versions (tagged_max_age args)
                     (keep_tags_pattern args) should_remove_all of
                Inl e \<Rightarrow> Some (Inl e, w1)
              | Inr cleanup_actions \<Rightarrow>
                  (let to_remove =
                         map version (filter (\<lambda>a. action a = Delete) cleanup_actions) in
                   if to_remove = [] then Some (Inr (), w1)
                   else Some (remove_each remove_version_func (namespace args) (package args)
                                (\<not> really_remove args) to_remove w1)))))"

section \<open>An example evaluation\<close>

text \<open>
  A standard library that knows six timestamps and one pattern: the values of
  \<^verbatim>\<open>datetime.fromisoformat\<close> at the strings below (microseconds since
  0001-01-01T00:00:00 UTC), and \<^verbatim>\<open>re.compile('^keep-')\<close>, whose search succeeds on the
  tags that start with \<^verbatim>\<open>keep-\<close>. The clock reads 2024-01-08T00:00:00 UTC, so that
  with a maximal age of 604800 seconds the cutoff is 2024-01-01T00:00:00 UTC.
\<close>

definition example_fromisoformat :: "string \<Rightarrow> datetime option" where
  "example_fromisoformat = map_of
     [(''2020-01-01T00:00:00+00:00'', Aware 63713433600000000),
      (''2024-01-01T00:00:00+00:00'', Aware 63839664000000000),
      (''2024-01-01T00:00:03+00:00'', Aware 63839664003000000),
      (''2024-01-01T00:00:12+00:00'', Aware 63839664012000000),
      (''2024-01-01T00:00:13+00:00'', Aware 63839664013000000),
      (''2024-01-01T00:00:23+00:00'', Aware 63839664023000000)]"

definition example_re_compile :: "string \<Rightarrow> (string \<Rightarrow> bool) option" where
  "example_re_compile p =
     (if p = ''^keep-'' then Some (\<lambda>tag. take 5 tag = ''keep-'') else None)"

definition example_stdlib :: stdlib where
  "example_stdlib =
     \<lparr>utcnow = 63840268800000000, fromisoformat = example_fromisoformat,
      re_compile = example_re_compile\<rparr>"

definition example_version :: "int \<Rightarrow> string \<Rightarrow> string list \<Rightarrow> PackageVersion" where
  "example_version i created tgs =
     \<lparr>id_key = i, name = None, url = [], package_html_url = [], created_at = created,
      updated_at = created, html_url = [], metadata = \<lparr>container = \<lparr>tags = tgs\<rparr>\<rparr>\<rparr>"

definition v_old_keep :: PackageVersion where
  "v_old_keep = example_version 1 ''2020-01-01T00:00:00Z'' [''keep-stable'']"

definition v_at_cutoff :: PackageVersion where
  "v_at_cutoff = example_version 2 ''2024-01-01T00:00:00Z'' [''v1.0'']"

definition v_new :: PackageVersion where
  "v_new = example_version 3 ''2024-01-01T00:00:03Z'' [''latest'', ''git-commit-abcd'']"

definition v_newer :: PackageVersion where
  "v_newer = example_version 4 ''2024-01-01T00:00:12Z'' [''v1.1'']"

definition v_orphan_near :: PackageVersion where
  "v_orphan_near = example_version 5 ''2024-01-01T00:00:13Z'' []"

definition v_orphan_far :: PackageVersion where
  "v_orphan_far = example_version 6 ''2024-01-01T00:00:23Z'' []"

definition v_git_commit :: PackageVersion where
  "v_git_commit = example_version 7 ''2024-01-01T00:00:03Z'' [''git-commit-abcd'']"

definition example_versions :: "PackageVersion list" where
  "example_versions =
     [v_orphan_near, v_old_keep, v_git_commit, v_at_cutoff, v_new, v_orphan_far, v_newer]"

definition example_actions :: "CleanupAction list" where
  "example_actions =
     [\<lparr>version = v_old_keep, action = Keep, reason = MatchesKeepPattern ''^keep-''\<rparr>,
      \<lparr>version = v_at_cutoff, action = Delete, reason = TaggedOlderThan 604800000000\<rparr>,
      \<lparr>version = v_new, action = Keep, reason = TaggedNewerThan 604800000000\<rparr>,
      \<lparr>version = v_newer, action = Keep, reason = TaggedNewerThan 604800000000\<rparr>,
      \<lparr>version = v_orphan_near, action = Keep, reason = MatchesKeptVersion 3\<rparr>,
      \<lparr>version = v_git_commit, action = Keep, reason = MatchesKeptVersion 3\<rparr>,
      \<lparr>version = v_orphan_far, action = Delete, reason = OrphanVersion\<rparr>]"

text \<open>
  A registry that answers the first listing request with three versions and a link to a
  second page, and the second page with four versions and no link; a world in which the
  variable \<^verbatim>\<open>GITHUB_TOKEN\<close> is set and no token is cached; and the arguments of a run
  that really removes, with a keep pattern that does not compile.
\<close>

definition example_requests :: requests_module where
  "example_requests =
     \<lparr>http_get = (\<lambda>u token.
        if u = ''https://api.github.com/user/acme/packages/container/app/versions?per_page=100''
        then Inr \<lparr>status_code = 200, json_body = [v_orphan_near, v_old_keep, v_git_commit],
                  link_header = Some (''<https://api.github.com/page/2>; '' @ rel_next)\<rparr>
        else if u = ''https://api.github.com/page/2''
        then Inr \<lparr>status_code = 200, json_body = [v_at_cutoff, v_new, v_orphan_far, v_newer],
                  link_header = None\<rparr>
        else Inr \<lparr>status_code = 404, json_body = [], link_header = None\<rparr>),
      http_delete = (\<lambda>u token. Inr \<lparr>status_code = 204, json_body = [], link_header = None\<rparr>)\<rparr>"

definition example_world :: world where
  "example_world =
     \<lparr>environ = [(''GITHUB_TOKEN'', ''secret'')], gh_cli = None, provider_token = None,
      events = []\<rparr>"

definition example_args :: CleanupArgs where
  "example_args =
     \<lparr>namespace = ''user/acme'', package = ''app'', tagged_max_age = 604800,
      really_remove = True, keep_tags_pattern = ''('', all_flag = None\<rparr>"

text \<open>
  The world after the two pages of the example registry have been listed, and a registry
  that answers every request with the status 500.
\<close>

definition example_world_listed :: world where
  "example_world_listed =
     example_world\<lparr>provider_token := Some ''secret'',
       events := [HttpGet ''https://api.github.com/user/acme/packages/container/app/versions?per_page=100'' ''secret'',
                  HttpGet ''https://api.github.com/page/2'' ''secret'']\<rparr>"

definition failing_requests :: requests_module where
  "failing_requests =
     \<lparr>http_get = (\<lambda>u token. Inr \<lparr>status_code = 500, json_body = [], link_header = None\<rparr>),
      http_delete = (\<lambda>u token. Inr \<lparr>status_code = 500, json_body = [], link_header = None\<rparr>)\<rparr>"

text \<open>
  A second standard library with the same clock reading: it knows one more timestamp
  and one more pattern, and agrees with the first on the others.
\<close>

definition example_stdlib2 :: stdlib where
  "example_stdlib2 =
     \<lparr>utcnow = 63840268800000000,
      fromisoformat = (example_fromisoformat(''1999-12-31T00:00:00'' \<mapsto> Naive 63082195200000000)),
      re_compile = (\<lambda>p. if p = ''^(latest-|git-tag-)''
                         then Some (\<lambda>tag. take 7 tag = ''latest-'' \<or> take 8 tag = ''git-tag-'')
                         else if p = ''^keep-''
                         then Some (\<lambda>tag. take 5 tag = ''keep-'')
                         else None)\<rparr>"

section \<open>The loops of the retention policy\<close>


lemma tagged_step_version:
  "tagged_step py search pat delta cutoff v = Inr (a, cr) \<Longrightarrow>
     version a = v \<and> created_date py v = Some cr"
  by (auto simp: tagged_step_def split: option.splits if_splits sum.splits)


lemma tagged_loop_acts:
  "tagged_loop py search pat delta cutoff vs kept acts = Inr (kept', acts') \<Longrightarrow>
     \<exists>new. acts' = acts @ new \<and>
       list_all2 (\<lambda>v a. \<exists>cr. tagged_step py search pat delta cutoff v = Inr (a, cr)) vs new"
proof (induction vs arbitrary: kept acts)
  case Nil
  then show ?case by simp
next
  case (Cons v vs)
  from Cons.prems obtain a cr where
    st: "tagged_step py search pat delta cutoff v = Inr (a, cr)" and
    rest: "tagged_loop py search pat delta cutoff vs
             (if action a = Keep then AList.update (id_key v) cr kept else kept)
             (acts @ [a]) = Inr (kept', acts')"
    by (auto split: sum.splits)
  from Cons.IH [OF rest] obtain new where
    "acts' = (acts @ [a]) @ new"
    "list_all2 (\<lambda>v a. \<exists>cr. tagged_step py search pat delta cutoff v = Inr (a, cr)) vs new"
    by blast
  with st show ?case
    by (intro exI [of _ "a # new"]) auto
qed



lemma orphan_loop_acts:
  "orphan_loop py kept vs acts = Inr acts' \<Longrightarrow>
     \<exists>new. acts' = acts @ new \<and> list_all2 (\<lambda>v a. orphan_step py kept v = Inr a) vs new"
proof (induction vs arbitrary: acts)
  case Nil
  then show ?case by simp
next
  case (Cons v vs)
  from Cons.prems obtain a where
    st: "orphan_step py kept v = Inr a" and
    rest: "orphan_loop py kept vs (acts @ [a]) = Inr acts'"
    by (auto split: sum.splits)
  from Cons.IH [OF rest] obtain new where
    "acts' = (acts @ [a]) @ new" "list_all2 (\<lambda>v a. orphan_step py kept v = Inr a) vs new"
    by blast
  with st show ?case
    by (intro exI [of _ "a # new"]) auto
qed

lemma orphan_step_version: "orphan_step py kept v = Inr a \<Longrightarrow> version a = v"
  by (auto simp: orphan_step_def split: option.splits sum.splits)


lemma set_update_subset: "set (AList.update k v al) \<subseteq> insert (k, v) (set al)"
  by (induction al) auto

lemma tagged_loop_kept_sound:
  "tagged_loop py search pat delta cutoff vs kept acts = Inr (kept', acts') \<Longrightarrow>
   e \<in> set kept' \<Longrightarrow>
     e \<in> set kept \<or>
     (\<exists>a \<in> set acts'. action a = Keep \<and> kept_entry py a e \<and> version a \<in> set vs)"
proof (induction vs arbitrary: kept acts)
  case Nil
  then show ?case by simp
next
  case (Cons v vs)
  from Cons.prems(1) obtain a cr where
    st: "tagged_step py search pat delta cutoff v = Inr (a, cr)" and
    rest: "tagged_loop py search pat delta cutoff vs
             (if action a = Keep then AList.update (id_key v) cr kept else kept)
             (acts @ [a]) = Inr (kept', acts')"
    by (auto split: sum.splits)
  have va: "version a = v" "created_date py v = Some cr"
    using tagged_step_version [OF st] by auto
  from tagged_loop_acts [OF rest] have a_in: "a \<in> set acts'" by auto
  let ?k = "if action a = Keep then AList.update (id_key v) cr kept else kept"
  have sub: "set ?k \<subseteq> set kept \<union> (if action a = Keep then {(id_key v, cr)} else {})"
    using set_update_subset [of "id_key v" cr kept] by auto
  from Cons.IH [OF rest Cons.prems(2)]
  consider "e \<in> set ?k"
    | "\<exists>a \<in> set acts'. action a = Keep \<and> kept_entry py a e \<and> version a \<in> set vs"
    by blast
  then show ?case
  proof cases
    case 1
    with sub have "e \<in> set kept \<or> (action a = Keep \<and> e = (id_key v, cr))"
      by (auto split: if_splits)
    then show ?thesis using a_in va by (auto simp: kept_entry_def)
  next
    case 2
    then show ?thesis by auto
  qed
qed

lemma find_kept_Some:
  "find_kept oc es = Inr (Some kid) \<Longrightarrow>
     \<exists>ts d. (kid, ts) \<in> set es \<and> datetime_absdiff oc ts = Inr d \<and> d \<le> time_tolerance"
  by (induction oc es rule: find_kept.induct) (auto split: sum.splits if_splits)

lemma find_versions_structure:
  assumes "find_versions_to_clean py vs age pat False = Inr res"
  obtains search kept ta where
    "timedelta_seconds age = Inr (age * 1000000)"
    "datetime_minus (utcnow py) (age * 1000000) = Inr (utcnow py - age * 1000000)"
    "re_compile py pat = Some search"
    "tagged_loop py search pat (age * 1000000) (utcnow py - age * 1000000)
       (filter has_real_tags vs) [] [] = Inr (kept, ta)"
    "orphan_loop py kept (filter (Not \<circ> has_real_tags) vs) ta = Inr res"
  using assms
  by (auto simp: find_versions_to_clean_def timedelta_seconds_def datetime_minus_def
           split: sum.splits option.splits if_splits)

lemma find_versions_parts:
  assumes "find_versions_to_clean py vs age pat False = Inr res"
  obtains search kept ta oa where
    "re_compile py pat = Some search"
    "tagged_loop py search pat (age * 1000000) (utcnow py - age * 1000000)
       (filter has_real_tags vs) [] [] = Inr (kept, ta)"
    "res = ta @ oa"
    "list_all2 (\<lambda>v a. \<exists>cr. tagged_step py search pat (age * 1000000)
                        (utcnow py - age * 1000000) v = Inr (a, cr))
       (filter has_real_tags vs) ta"
    "list_all2 (\<lambda>v a. orphan_step py kept v = Inr a) (filter (Not \<circ> has_real_tags) vs) oa"
proof -
  from find_versions_structure [OF assms] obtain search kept ta where
    s: "re_compile py pat = Some search"
       "tagged_loop py search pat (age * 1000000) (utcnow py - age * 1000000)
          (filter has_real_tags vs) [] [] = Inr (kept, ta)"
       "orphan_loop py kept (filter (Not \<circ> has_real_tags) vs) ta = Inr res"
    by blast
  from tagged_loop_acts [OF s(2)] have
    t: "list_all2 (\<lambda>v a. \<exists>cr. tagged_step py search pat (age * 1000000)
                        (utcnow py - age * 1000000) v = Inr (a, cr))
          (filter has_real_tags vs) ta"
    by simp
  from orphan_loop_acts [OF s(3)] obtain oa where
    "res = ta @ oa"
    "list_all2 (\<lambda>v a. orphan_step py kept v = Inr a) (filter (Not \<circ> has_real_tags) vs) oa"
    by blast
  with s t that show thesis by blast
qed

lemma tagged_part_versions:
  "list_all2 (\<lambda>v a. \<exists>cr. tagged_step py search pat delta cutoff v = Inr (a, cr)) vs ta \<Longrightarrow>
     map version ta = vs"
  by (induction rule: list_all2_induct) (auto dest: tagged_step_version)

lemma orphan_part_versions:
  "list_all2 (\<lambda>v a. orphan_step py kept v = Inr a) vs oa \<Longrightarrow> map version oa = vs"
  by (induction rule: list_all2_induct) (auto dest: orphan_step_version)

lemma tagged_part_step:
  "list_all2 (\<lambda>v a. \<exists>cr. tagged_step py search pat delta cutoff v = Inr (a, cr)) vs ta \<Longrightarrow>
   a \<in> set ta \<Longrightarrow> \<exists>cr. tagged_step py search pat delta cutoff (version a) = Inr (a, cr)"
  by (induction rule: list_all2_induct) (auto dest: tagged_step_version)

lemma orphan_part_step:
  "list_all2 (\<lambda>v a. orphan_step py kept v = Inr a) vs oa \<Longrightarrow> a \<in> set oa \<Longrightarrow>
     orphan_step py kept (version a) = Inr a"
  by (induction rule: list_all2_induct) (auto dest: orphan_step_version)

lemma result_groups:
  assumes "find_versions_to_clean py vs age pat False = Inr res"
  obtains search kept ta oa where
    "re_compile py pat = Some search"
    "tagged_loop py search pat (age * 1000000) (utcnow py - age * 1000000)
       (filter has_real_tags vs) [] [] = Inr (kept, ta)"
    "res = ta @ oa"
    "map version ta = filter has_real_tags vs"
    "map version oa = filter (Not \<circ> has_real_tags) vs"
    "\<And>a. a \<in> set ta \<Longrightarrow> \<exists>cr. tagged_step py search pat (age * 1000000)
                        (utcnow py - age * 1000000) (version a) = Inr (a, cr)"
    "\<And>a. a \<in> set oa \<Longrightarrow> orphan_step py kept (version a) = Inr a"
proof -
  from find_versions_parts [OF assms] obtain search kept ta oa where
    p: "re_compile py pat = Some search"
       "tagged_loop py search pat (age * 1000000) (utcnow py - age * 1000000)
          (filter has_real_tags vs) [] [] = Inr (kept, ta)"
       "res = ta @ oa"
       "list_all2 (\<lambda>v a. \<exists>cr. tagged_step py search pat (age * 1000000)
                        (utcnow py - age * 1000000) v = Inr (a, cr))
          (filter has_real_tags vs) ta"
       "list_all2 (\<lambda>v a. orphan_step py kept v = Inr a) (filter (Not \<circ> has_real_tags) vs) oa"
    by blast
  show thesis
  proof (rule that [OF p(1) p(2) p(3)])
    show "map version ta = filter has_real_tags vs"
      by (rule tagged_part_versions [OF p(4)])
    show "map version oa = filter (Not \<circ> has_real_tags) vs"
      by (rule orphan_part_versions [OF p(5)])
    show "\<exists>cr. tagged_step py search pat (age * 1000000)
                        (utcnow py - age * 1000000) (version a) = Inr (a, cr)"
      if "a \<in> set ta" for a
      by (rule tagged_part_step [OF p(4) that])
    show "orphan_step py kept (version a) = Inr a" if "a \<in> set oa" for a
      by (rule orphan_part_step [OF p(5) that])
  qed
qed

lemma group_of_member:
  assumes "res = ta @ oa" "map version ta = filter has_real_tags vs"
    "map version oa = filter (Not \<circ> has_real_tags) vs" "a \<in> set res"
  shows "has_real_tags (version a) \<longleftrightarrow> a \<in> set ta"
    and "\<not> has_real_tags (version a) \<longleftrightarrow> a \<in> set oa"
proof -
  have t: "has_real_tags (version k)" if "k \<in> set ta" for k
  proof -
    from that have "version k \<in> set (map version ta)" by simp
    then show ?thesis by (simp add: assms(2))
  qed
  have o: "\<not> has_real_tags (version k)" if "k \<in> set oa" for k
  proof -
    from that have "version k \<in> set (map version oa)" by simp
    then show ?thesis by (simp add: assms(3))
  qed
  from assms(1,4) have "a \<in> set ta \<or> a \<in> set oa" by simp
  then show "has_real_tags (version a) \<longleftrightarrow> a \<in> set ta"
    and "\<not> has_real_tags (version a) \<longleftrightarrow> a \<in> set oa"
    using t o by blast+
qed

lemma tagged_step_pattern:
  "tagged_step py search pat delta cutoff v = Inr (a, cr) \<Longrightarrow> list_ex search (get_tags v) \<Longrightarrow>
     action a = Keep \<and> reason a = MatchesKeepPattern pat"
  by (auto simp: tagged_step_def split: option.splits)

lemma datetime_gt_Aware:
  "datetime_gt cr (Aware t) = Inr b \<Longrightarrow> \<exists>c. cr = Aware c \<and> b = (c > t)"
  by (cases cr) auto

lemma tagged_step_age:
  assumes "tagged_step py search pat delta cutoff v = Inr (a, cr)"
    and "\<not> list_ex search (get_tags v)"
  shows "\<exists>c. created_date py (version a) = Some (Aware c) \<and>
           (if c > cutoff
            then action a = Keep \<and> reason a = TaggedNewerThan delta
            else action a = Delete \<and> reason a = TaggedOlderThan delta)"
proof -
  from tagged_step_version [OF assms(1)] have va: "version a = v" "created_date py v = Some cr"
    by auto
  from assms va(2) obtain b where
    gt: "datetime_gt cr (Aware cutoff) = Inr b" and
    ab: "a = (if b then \<lparr>version = v, action = Keep, reason = TaggedNewerThan delta\<rparr>
              else \<lparr>version = v, action = Delete, reason = TaggedOlderThan delta\<rparr>)"
    by (cases "datetime_gt cr (Aware cutoff)") (auto simp: tagged_step_def split: if_splits)
  from datetime_gt_Aware [OF gt] obtain c where c: "cr = Aware c" "b = (c > cutoff)" by blast
  show ?thesis
  proof (intro exI conjI)
    show "created_date py (version a) = Some (Aware c)" using va c by simp
    show "if c > cutoff
          then action a = Keep \<and> reason a = TaggedNewerThan delta
          else action a = Delete \<and> reason a = TaggedOlderThan delta"
      using ab c by simp
  qed
qed

lemma kept_tagged_of_result:
  assumes "res = ta @ oa" "map version ta = filter has_real_tags vs"
    "map version oa = filter (Not \<circ> has_real_tags) vs"
  shows "filter (\<lambda>k. has_real_tags (version k) \<and> action k = Keep) res
           = filter (\<lambda>k. action k = Keep) ta"
    and "filter (\<lambda>k. has_real_tags (version k)) res = ta"
proof -
  have t: "has_real_tags (version k)" if "k \<in> set ta" for k
  proof -
    from that have "version k \<in> set (map version ta)" by simp
    then show ?thesis by (simp add: assms(2))
  qed
  have o: "\<not> has_real_tags (version k)" if "k \<in> set oa" for k
  proof -
    from that have "version k \<in> set (map version oa)" by simp
    then show ?thesis by (simp add: assms(3))
  qed
  have 1: "filter (\<lambda>k. has_real_tags (version k) \<and> action k = Keep) ta
            = filter (\<lambda>k. action k = Keep) ta"
    by (rule filter_cong) (simp_all add: t)
  have 2: "filter (\<lambda>k. has_real_tags (version k) \<and> action k = Keep) oa = []"
    by (simp add: filter_empty_conv o)
  have 3: "filter (\<lambda>k. has_real_tags (version k)) ta = ta"
    by (simp add: filter_id_conv t)
  have 4: "filter (\<lambda>k. has_real_tags (version k)) oa = []"
    by (simp add: filter_empty_conv o)
  show "filter (\<lambda>k. has_real_tags (version k) \<and> action k = Keep) res
           = filter (\<lambda>k. action k = Keep) ta"
    by (simp only: assms(1) filter_append 1 2 append_Nil2)
  show "filter (\<lambda>k. has_real_tags (version k)) res = ta"
    by (simp only: assms(1) filter_append 3 4 append_Nil2)
qed

lemma orphan_step_cases:
  assumes "orphan_step py kept v = Inr a"
  obtains oc r where "created_date py v = Some oc" "find_kept oc kept = Inr r"
    "case r of None \<Rightarrow> action a = Delete \<and> reason a = OrphanVersion
     | Some kid \<Rightarrow> action a = Keep \<and> reason a = MatchesKeptVersion kid"
proof (cases "created_date py v")
  case None
  with assms show ?thesis by (simp add: orphan_step_def)
next
  case (Some oc)
  show ?thesis
  proof (cases "find_kept oc kept")
    case (Inl e)
    with assms Some show ?thesis by (simp add: orphan_step_def)
  next
    case (Inr r)
    with assms Some have "case r of None \<Rightarrow> action a = Delete \<and> reason a = OrphanVersion
      | Some kid \<Rightarrow> action a = Keep \<and> reason a = MatchesKeptVersion kid"
      by (cases r) (auto simp: orphan_step_def)
    with Some Inr that show ?thesis by blast
  qed
qed

lemma tagged_step_reason:
  "tagged_step py search pat delta cutoff v = Inr (a, cr) \<Longrightarrow>
     (action a = Keep \<and> reason a = MatchesKeepPattern pat) \<or>
     (action a = Keep \<and> reason a = TaggedNewerThan delta) \<or>
     (action a = Delete \<and> reason a = TaggedOlderThan delta)"
  by (cases "list_ex search (get_tags v)")
     (auto dest: tagged_step_pattern tagged_step_age split: if_splits)

lemma orphan_step_reason:
  assumes "orphan_step py kept v = Inr a"
  shows "(action a = Delete \<and> reason a = OrphanVersion) \<or>
         (action a = Keep \<and> (\<exists>k. reason a = MatchesKeptVersion k))"
proof (rule orphan_step_cases [OF assms])
  fix oc r
  assume "case r of None \<Rightarrow> action a = Delete \<and> reason a = OrphanVersion
          | Some kid \<Rightarrow> action a = Keep \<and> reason a = MatchesKeptVersion kid"
  then show ?thesis by (cases r) auto
qed

lemma has_real_tags_sole_git_commit:
  "get_tags v = [t] \<Longrightarrow> git_commit_regex_match t \<Longrightarrow> \<not> has_real_tags v"
  by (simp add: has_real_tags_def)

lemma has_real_tags_other:
  "get_tags v \<noteq> [] \<Longrightarrow> \<forall>t. get_tags v = [t] \<longrightarrow> \<not> git_commit_regex_match t \<Longrightarrow> has_real_tags v"
  by (cases "get_tags v"; cases "tl (get_tags v)") (auto simp: has_real_tags_def Let_def)

lemma member_has_action:
  assumes "res = ta @ oa" "map version ta = filter has_real_tags vs"
    "map version oa = filter (Not \<circ> has_real_tags) vs" "v \<in> set vs"
  shows "\<exists>a \<in> set res. version a = v"
proof -
  have "v \<in> set (filter has_real_tags vs) \<union> set (filter (Not \<circ> has_real_tags) vs)"
    using assms(4) by auto
  then have "v \<in> set (map version ta) \<union> set (map version oa)"
    by (simp only: assms(2,3))
  then have "v \<in> version ` set res" by (simp add: assms(1) image_Un)
  then show ?thesis by auto
qed

lemma tagged_step_cong:
  assumes "created_date py1 v = created_date py2 v"
    and "\<forall>t \<in> set (get_tags v). s1 t = s2 t"
  shows "tagged_step py1 s1 pat d c v = tagged_step py2 s2 pat d c v"
proof -
  have le: "list_ex s1 (get_tags v) = list_ex s2 (get_tags v)"
    using assms(2) by (simp add: list_ex_iff)
  show ?thesis unfolding tagged_step_def assms(1) le by (rule refl)
qed

lemma tagged_loop_cong:
  "\<forall>v \<in> set vs. created_date py1 v = created_date py2 v \<and>
                   (\<forall>t \<in> set (get_tags v). s1 t = s2 t) \<Longrightarrow>
     tagged_loop py1 s1 pat d c vs kept acts = tagged_loop py2 s2 pat d c vs kept acts"
proof (induction vs arbitrary: kept acts)
  case Nil
  show ?case by simp
next
  case (Cons v vs)
  have st: "tagged_step py1 s1 pat d c v = tagged_step py2 s2 pat d c v"
    using Cons.prems by (intro tagged_step_cong) auto
  have rest: "tagged_loop py1 s1 pat d c vs k a = tagged_loop py2 s2 pat d c vs k a" for k a
    using Cons.prems by (intro Cons.IH) auto
  show ?case unfolding tagged_loop.simps st rest by (rule refl)
qed

lemma orphan_step_cong:
  "created_date py1 v = created_date py2 v \<Longrightarrow> orphan_step py1 kept v = orphan_step py2 kept v"
  unfolding orphan_step_def by simp

lemma orphan_loop_cong:
  "\<forall>v \<in> set vs. created_date py1 v = created_date py2 v \<Longrightarrow>
     orphan_loop py1 kept vs acts = orphan_loop py2 kept vs acts"
proof (induction vs arbitrary: acts)
  case Nil
  show ?case by simp
next
  case (Cons v vs)
  have st: "orphan_step py1 kept v = orphan_step py2 kept v"
    using Cons.prems by (intro orphan_step_cong) auto
  have rest: "orphan_loop py1 kept vs a = orphan_loop py2 kept vs a" for a
    using Cons.prems by (intro Cons.IH) auto
  show ?case unfolding orphan_loop.simps st rest by (rule refl)
qed

text \<open>
  On a list whose creation dates all parse to aware datetimes, with a maximal age in
  range and a keep pattern that compiles, the function returns actions.
\<close>

lemma tagged_step_returns:
  assumes "created_date py v = Some (Aware t)"
  shows "\<exists>a. tagged_step py search pat delta cutoff v = Inr (a, Aware t)"
  using assms by (simp add: tagged_step_def)

lemma tagged_loop_returns:
  assumes "\<forall>v \<in> set vs. \<exists>t. created_date py v = Some (Aware t)"
    and "\<forall>e \<in> set kept. \<exists>t. snd e = Aware t"
  shows "\<exists>kept' acts'. tagged_loop py search pat delta cutoff vs kept acts = Inr (kept', acts') \<and>
           (\<forall>e \<in> set kept'. \<exists>t. snd e = Aware t)"
  using assms
proof (induction vs arbitrary: kept acts)
  case Nil
  then show ?case by simp
next
  case (Cons v vs)
  from Cons.prems(1) obtain t where t: "created_date py v = Some (Aware t)" by auto
  from tagged_step_returns [OF t] obtain a where
    a: "tagged_step py search pat delta cutoff v = Inr (a, Aware t)" by blast
  let ?k = "if action a = Keep then AList.update (id_key v) (Aware t) kept else kept"
  have k: "\<forall>e \<in> set ?k. \<exists>t. snd e = Aware t"
    using Cons.prems(2) set_update_subset [of "id_key v" "Aware t" kept] by auto
  have vs: "\<forall>v \<in> set vs. \<exists>t. created_date py v = Some (Aware t)"
    using Cons.prems(1) by simp
  from Cons.IH [OF vs k, of "acts @ [a]"] show ?case by (simp add: a)
qed

lemma find_kept_returns:
  "\<forall>e \<in> set kept. \<exists>t. snd e = Aware t \<Longrightarrow> \<exists>r. find_kept (Aware c) kept = Inr r"
  by (induction kept) auto

lemma orphan_loop_returns:
  assumes "\<forall>v \<in> set vs. \<exists>t. created_date py v = Some (Aware t)"
    and "\<forall>e \<in> set kept. \<exists>t. snd e = Aware t"
  shows "\<exists>acts'. orphan_loop py kept vs acts = Inr acts'"
  using assms(1)
proof (induction vs arbitrary: acts)
  case Nil
  show ?case by simp
next
  case (Cons v vs)
  from Cons.prems obtain t where t: "created_date py v = Some (Aware t)" by auto
  from find_kept_returns [OF assms(2), of t] obtain r where "find_kept (Aware t) kept = Inr r"
    by blast
  then obtain a where a: "orphan_step py kept v = Inr a"
    by (cases r) (simp_all add: orphan_step_def t)
  have vs: "\<forall>v \<in> set vs. \<exists>t. created_date py v = Some (Aware t)"
    using Cons.prems by simp
  from Cons.IH [OF vs, of "acts @ [a]"] show ?case by (simp add: a)
qed

lemma find_versions_returns:
  assumes "timedelta_seconds age = Inr delta"
    and "datetime_minus (utcnow py) delta = Inr cutoff"
    and "re_compile py pat = Some search"
    and "\<forall>v \<in> set vs. \<exists>t. created_date py v = Some (Aware t)"
  shows "\<exists>res. find_versions_to_clean py vs age pat all = Inr res"
proof (cases all)
  case True
  then show ?thesis by (simp add: find_versions_to_clean_def)
next
  case False
  have t: "\<forall>v \<in> set (filter has_real_tags vs). \<exists>t. created_date py v = Some (Aware t)"
    using assms(4) by simp
  have o: "\<forall>v \<in> set (filter (Not \<circ> has_real_tags) vs). \<exists>t. created_date py v = Some (Aware t)"
    using assms(4) by simp
  from tagged_loop_returns [OF t, of "[]" search pat delta cutoff "[]"] obtain kept acts where
    tl: "tagged_loop py search pat delta cutoff (filter has_real_tags vs) [] [] = Inr (kept, acts)"
    and k: "\<forall>e \<in> set kept. \<exists>t. snd e = Aware t"
    by auto
  from orphan_loop_returns [OF o k, of acts] obtain res where
    "orphan_loop py kept (filter (Not \<circ> has_real_tags) vs) acts = Inr res" by blast
  with False tl show ?thesis
    by (simp add: find_versions_to_clean_def assms(1,2,3))
qed

section \<open>The events of listing and removing\<close>

lemma fetch_pages_events:
  assumes "fetch_pages req token next_page all_versions w = Some y"
  shows "\<exists>evs. events (snd y) = events w @ HttpGet next_page token # evs \<and> only_gets evs"
  using assms
proof (induction req token next_page all_versions w y
         rule: fetch_pages.raw_induct [rotated 1, consumes 1, case_names 1])
  case (1 fetch_pages req token next_page all_versions w y)
  let ?w1 = "w\<lparr>events := events w @ [HttpGet next_page token]\<rparr>"
  show ?case
  proof (cases "http_get req next_page token")
    case (Inl e)
    with "1.hyps" have "y = (Inl e, ?w1)" by (simp add: Let_def)
    then show ?thesis by (simp add: only_gets_def)
  next
    case (Inr response)
    note resp = this
    show ?thesis
    proof (cases "raise_for_status response")
      case (Inl e)
      with "1.hyps" resp have "y = (Inl e, ?w1)" by (simp add: Let_def)
      then show ?thesis by (simp add: only_gets_def)
    next
      case (Inr u)
      note ok = this
      show ?thesis
      proof (cases "next_page_of response")
        case None
        with "1.hyps" resp ok have "y = (Inr (all_versions @ json_body response), ?w1)"
          by (simp add: Let_def)
        then show ?thesis by (simp add: only_gets_def)
      next
        case (Some nxt)
        with "1.hyps" resp ok have
          "fetch_pages req token nxt (all_versions @ json_body response) ?w1 = Some y"
          by (simp add: Let_def)
        from "1.IH" [OF this] obtain evs where
          "events (snd y) = events ?w1 @ HttpGet nxt token # evs" "only_gets evs"
          by blast
        then show ?thesis
          by (intro exI [of _ "HttpGet nxt token # evs"]) (simp add: only_gets_def)
      qed
    qed
  qed
qed

lemma get_token_events:
  "get_token w = (r, w1) \<Longrightarrow> events w1 = events w \<or> events w1 = events w @ [RunGhAuthToken]"
  by (auto simp: get_token_def token_from_gh_cli_def Let_def split: if_splits option.splits)

lemma list_versions_events:
  assumes "list_versions req ns pkg w = Some (Inr vs, w1)"
  shows "\<exists>evs u t. events w1 = events w @ evs \<and> HttpGet u t \<in> set evs \<and>
           (\<forall>u t. HttpDelete u t \<notin> set evs)"
proof -
  obtain r w0 where gt: "get_token w = (r, w0)" by (cases "get_token w")
  from assms gt obtain token where r: "r = Inr token"
    by (cases r) (auto simp: list_versions_def)
  let ?u = "''https://api.github.com/'' @ ns @ ''/packages/container/'' @ pkg
              @ ''/versions?per_page=100''"
  from assms gt r have "fetch_pages req token ?u [] w0 = Some (Inr vs, w1)"
    by (simp add: list_versions_def)
  from fetch_pages_events [OF this] obtain evs where
    e: "events w1 = events w0 @ HttpGet ?u token # evs" and g: "only_gets evs"
    by auto
  from get_token_events [OF gt] obtain pre where
    p: "events w0 = events w @ pre" "pre = [] \<or> pre = [RunGhAuthToken]"
    by auto
  have nd: "\<forall>u t. HttpDelete u t \<notin> set evs"
    using g by (auto simp: only_gets_def list_all_iff)
  show ?thesis
  proof (intro exI conjI)
    show "events w1 = events w @ (pre @ HttpGet ?u token # evs)" using e p by simp
    show "HttpGet ?u token \<in> set (pre @ HttpGet ?u token # evs)" by simp
    show "\<forall>u t. HttpDelete u t \<notin> set (pre @ HttpGet ?u token # evs)"
      using nd p(2) by auto
  qed
qed

lemma remove_each_dry_run:
  "remove_each (remove_version req) ns pkg True vs w = (Inr (), w)"
  by (induction vs) (simp_all add: remove_version_def)

lemma timedelta_seconds_error: "timedelta_seconds n = Inl e \<Longrightarrow> e = OverflowError"
  by (simp add: timedelta_seconds_def split: if_splits)

lemma datetime_minus_error: "datetime_minus t d = Inl e \<Longrightarrow> e = OverflowError"
  by (simp add: datetime_minus_def split: if_splits)

lemma find_versions_bad_pattern:
  assumes "re_compile py pat = None"
  shows "find_versions_to_clean py vs age pat False =
           (case timedelta_seconds age of
              Inl e \<Rightarrow> Inl OverflowError
            | Inr delta \<Rightarrow>
                (case datetime_minus (utcnow py) delta of
                   Inl e \<Rightarrow> Inl OverflowError
                 | Inr cutoff \<Rightarrow> Inl ReError))"
proof (cases "timedelta_seconds age")
  case (Inl e)
  with timedelta_seconds_error [OF Inl] show ?thesis
    by (simp add: find_versions_to_clean_def)
next
  case (Inr delta)
  note d = this
  show ?thesis
  proof (cases "datetime_minus (utcnow py) delta")
    case (Inl e)
    with d datetime_minus_error [OF Inl] show ?thesis
      by (simp add: find_versions_to_clean_def)
  next
    case (Inr cutoff)
    with d assms show ?thesis by (simp add: find_versions_to_clean_def)
  qed
qed

lemma list_versions_no_delete:
  assumes "list_versions req ns pkg w = Some (r, w1)"
  shows "\<exists>evs. events w1 = events w @ evs \<and> (\<forall>u t. HttpDelete u t \<notin> set evs)"
proof -
  obtain r0 w0 where gt: "get_token w = (r0, w0)" by (cases "get_token w")
  from get_token_events [OF gt] obtain pre where
    p: "events w0 = events w @ pre" "pre = [] \<or> pre = [RunGhAuthToken]"
    by auto
  show ?thesis
  proof (cases r0)
    case (Inl e)
    with assms gt have "w1 = w0" by (simp add: list_versions_def)
    with p show ?thesis by auto
  next
    case (Inr token)
    let ?u = "''https://api.github.com/'' @ ns @ ''/packages/container/'' @ pkg
                @ ''/versions?per_page=100''"
    from assms gt Inr have "fetch_pages req token ?u [] w0 = Some (r, w1)"
      by (simp add: list_versions_def)
    from fetch_pages_events [OF this] obtain evs where
      e: "events w1 = events w0 @ HttpGet ?u token # evs" and g: "only_gets evs"
      by auto
    have nd: "\<forall>u t. HttpDelete u t \<notin> set evs"
      using g by (auto simp: only_gets_def list_all_iff)
    show ?thesis
    proof (intro exI conjI)
      show "events w1 = events w @ (pre @ HttpGet ?u token # evs)" using e p by simp
      show "\<forall>u t. HttpDelete u t \<notin> set (pre @ HttpGet ?u token # evs)"
        using nd p(2) by auto
    qed
  qed
qed

lemma cleanup_bad_pattern:
  assumes "re_compile py (keep_tags_pattern args) = None" and "all_flag args = None"
  shows "cleanup_versions_command args (list_versions req) (find_versions_to_clean py)
           (remove_version req) w =
         (case list_versions req (namespace args) (package args) w of
            None \<Rightarrow> None
          | Some (Inl e, w1) \<Rightarrow> Some (Inl e, w1)
          | Some (Inr vs, w1) \<Rightarrow>
              (case timedelta_seconds (tagged_max_age args) of
                 Inl e \<Rightarrow> Some (Inl OverflowError, w1)
               | Inr delta \<Rightarrow>
                   (case datetime_minus (utcnow py) delta of
                      Inl e \<Rightarrow> Some (Inl OverflowError, w1)
                    | Inr cutoff \<Rightarrow> Some (Inl ReError, w1))))"
proof (cases "list_versions req (namespace args) (package args) w")
  case None
  then show ?thesis by (simp add: cleanup_versions_command_def assms(2))
next
  case (Some x)
  obtain r w1 where x: "x = (r, w1)" by (cases x)
  show ?thesis
  proof (cases r)
    case (Inl e)
    with Some x show ?thesis by (simp add: cleanup_versions_command_def assms(2))
  next
    case (Inr vs)
    have "cleanup_versions_command args (list_versions req) (find_versions_to_clean py)
           (remove_version req) w =
          (case find_versions_to_clean py vs (tagged_max_age args) (keep_tags_pattern args) False of
             Inl e \<Rightarrow> Some (Inl e, w1)
           | Inr cleanup_actions \<Rightarrow>
               (let to_remove = map version (filter (\<lambda>a. action a = Delete) cleanup_actions) in
                if to_remove = [] then Some (Inr (), w1)
                else Some (remove_each (remove_version req) (namespace args) (package args)
                             (\<not> really_remove args) to_remove w1)))"
      using Some x Inr by (simp add: cleanup_versions_command_def assms(2))
    also have "\<dots> = (case timedelta_seconds (tagged_max_age args) of
                 Inl e \<Rightarrow> Some (Inl OverflowError, w1)
               | Inr delta \<Rightarrow>
                   (case datetime_minus (utcnow py) delta of
                      Inl e \<Rightarrow> Some (Inl OverflowError, w1)
                    | Inr cutoff \<Rightarrow> Some (Inl ReError, w1)))"
      unfolding find_versions_bad_pattern [OF assms(1)]
      by (simp split: sum.splits)
    finally show ?thesis using Some x Inr by simp
  qed
qed

lemma cleanup_bad_pattern_fails:
  assumes "re_compile py (keep_tags_pattern args) = None" and "all_flag args = None"
    and "cleanup_versions_command args (list_versions req) (find_versions_to_clean py)
           (remove_version req) w = Some (r, w')"
  shows "(\<exists>e. r = Inl e) \<and>
         (\<exists>evs. events w' = events w @ evs \<and> (\<forall>u t. HttpDelete u t \<notin> set evs))"
proof (cases "list_versions req (namespace args) (package args) w")
  case None
  with assms(3) show ?thesis
    unfolding cleanup_bad_pattern [OF assms(1,2)] by simp
next
  case (Some x)
  obtain r1 w1 where x: "x = (r1, w1)" by (cases x)
  from assms(3) Some x have "w' = w1 \<and> (\<exists>e. r = Inl e)"
    unfolding cleanup_bad_pattern [OF assms(1,2)]
    by (auto split: sum.splits)
  with list_versions_no_delete [OF Some [unfolded x]] show ?thesis by blast
qed

lemma cleanup_remove_all_ignores_pattern:
  assumes "all_flag args = Some ''yes-remove-all''"
  shows "cleanup_versions_command args list_f (find_versions_to_clean py) remove_f w =
         cleanup_versions_command (args\<lparr>keep_tags_pattern := p\<rparr>) list_f
           (find_versions_to_clean py') remove_f w"
proof -
  have f: "find_versions_to_clean q vs a pt True
             = Inr (map (\<lambda>v. \<lparr>version = v, action = Delete, reason = MarkedByAllFlag\<rparr>) vs)"
    for q vs a pt
    by (simp add: find_versions_to_clean_def)
  show ?thesis
  proof (cases "list_f (namespace args) (package args) w")
    case None
    then show ?thesis by (simp add: cleanup_versions_command_def assms)
  next
    case (Some x)
    obtain r w1 where x: "x = (r, w1)" by (cases x)
    show ?thesis
    proof (cases r)
      case (Inl e)
      with Some x show ?thesis by (simp add: cleanup_versions_command_def assms)
    next
      case (Inr vs)
      with Some x show ?thesis by (simp add: cleanup_versions_command_def assms f)
    qed
  qed
qed

lemma cleanup_bad_flag:
  assumes "all_flag args \<noteq> None" and "all_flag args \<noteq> Some ''yes-remove-all''"
  shows "cleanup_versions_command args list_f find_f remove_f w = Some (Inl (SystemExit 1), w)"
  using assms by (simp add: cleanup_versions_command_def)

section \<open>The example, evaluated\<close>

lemma example_run:
  "find_versions_to_clean example_stdlib example_versions 604800 ''^keep-'' False
     = Inr example_actions"
  by code_simp

lemma example_search: "re_compile example_stdlib ''^keep-'' = Some (\<lambda>tag. take 5 tag = ''keep-'')"
  by (simp add: example_stdlib_def example_re_compile_def)



lemma example_listing:
  "list_versions example_requests ''user/acme'' ''app'' example_world
     = Some (Inr example_versions,
         example_world\<lparr>provider_token := Some ''secret'',
           events := [HttpGet ''https://api.github.com/user/acme/packages/container/app/versions?per_page=100'' ''secret'',
                      HttpGet ''https://api.github.com/page/2'' ''secret'']\<rparr>)"
  by code_simp

lemma example_listing_args:
  "list_versions example_requests (namespace example_args) (package example_args) example_world
     = Some (Inr example_versions, example_world_listed)"
  by code_simp

lemma failing_listing_args:
  "list_versions failing_requests (namespace example_args) (package example_args) example_world
     = Some (Inl (HTTPError 500),
         example_world\<lparr>provider_token := Some ''secret'',
           events := [HttpGet ''https://api.github.com/user/acme/packages/container/app/versions?per_page=100'' ''secret'']\<rparr>)"
  by code_simp

section \<open>The forced deletion of every version\<close>

text \<open>
  C4. With \<^verbatim>\<open>remove_all\<close> set, the function returns, for every input list, one action for
  each version, in the input order, each \<open>Delete\<close> with the reason of the
  \<^verbatim>\<open>--all=yes-remove-all\<close> flag. Nothing else is evaluated: the result is the same for
  every clock reading, every timestamp parser, every keep pattern (also one that does
  not compile) and every maximal age.
\<close>

theorem remove_all_deletes_everything:
  "find_versions_to_clean py versions max_age pat True =
     Inr (map (\<lambda>v. \<lparr>version = v, action = Delete, reason = MarkedByAllFlag\<rparr>) versions)"
  by (simp add: find_versions_to_clean_def)

section \<open>The claims about the retention policy\<close>



text \<open>
  C2. A version of the tagged group one of whose tags the keep pattern matches (the
  compiled pattern's \<^verbatim>\<open>search\<close>, which is not anchored) is kept, with the reason that
  names the keep pattern, whatever its creation date is: the age is not looked at.
\<close>

theorem keep_pattern_wins:
  assumes "find_versions_to_clean py vs age pat False = Inr res"
    and "a \<in> set res" and "has_real_tags (version a)"
    and "re_compile py pat = Some search"
    and "\<exists>t \<in> set (get_tags (version a)). search t"
  shows "action a = Keep \<and> reason a = MatchesKeepPattern pat"
proof (rule result_groups [OF assms(1)])
  fix search' :: "string \<Rightarrow> bool" and kept :: "(int \<times> datetime) list" and ta oa
  assume g: "re_compile py pat = Some search'" "res = ta @ oa"
    "map version ta = filter has_real_tags vs"
    "map version oa = filter (Not \<circ> has_real_tags) vs"
  assume steps: "\<And>a. a \<in> set ta \<Longrightarrow> \<exists>cr. tagged_step py search' pat (age * 1000000)
                        (utcnow py - age * 1000000) (version a) = Inr (a, cr)"
  from g(1) assms(4) have s: "search' = search" by simp
  have "a \<in> set ta"
    using group_of_member(1) [OF g(2) g(3) g(4) assms(2)] assms(3) by simp
  from steps [OF this] obtain cr where
    "tagged_step py search' pat (age * 1000000) (utcnow py - age * 1000000) (version a)
       = Inr (a, cr)" ..
  then have st: "tagged_step py search pat (age * 1000000) (utcnow py - age * 1000000)
       (version a) = Inr (a, cr)"
    by (simp only: s)
  have "list_ex search (get_tags (version a))"
    using assms(5) by (simp add: list_ex_iff)
  with st show ?thesis by (rule tagged_step_pattern)
qed

theorem keep_pattern_wins_witness:
  "find_versions_to_clean example_stdlib example_versions 604800 ''^keep-'' False
     = Inr example_actions \<and>
   example_actions ! 0 \<in> set example_actions \<and>
   version (example_actions ! 0) = v_old_keep \<and>
   has_real_tags v_old_keep \<and>
   get_tags v_old_keep = [''keep-stable''] \<and>
   created_date example_stdlib v_old_keep = Some (Aware 63713433600000000) \<and>
   action (example_actions ! 0) = Keep \<and>
   reason (example_actions ! 0) = MatchesKeepPattern ''^keep-''"
proof -
  have m: "example_actions ! 0 \<in> set example_actions"
    by (simp add: example_actions_def)
  have v: "version (example_actions ! 0) = v_old_keep"
    by (simp add: example_actions_def)
  have h: "has_real_tags v_old_keep" by code_simp
  have t: "get_tags v_old_keep = [''keep-stable'']" by code_simp
  have c: "created_date example_stdlib v_old_keep = Some (Aware 63713433600000000)"
    by code_simp
  have e: "\<exists>t \<in> set (get_tags (version (example_actions ! 0))). take 5 t = ''keep-''"
    unfolding v t by simp
  from keep_pattern_wins [OF example_run m _ example_search e] h v
  have "action (example_actions ! 0) = Keep \<and>
        reason (example_actions ! 0) = MatchesKeepPattern ''^keep-''"
    by simp
  with example_run m v h t c show ?thesis by simp
qed

text \<open>
  C3. A version of the tagged group none of whose tags the keep pattern matches has an
  aware creation date \<open>c\<close>; it is kept, as newer than the maximal age, exactly when \<open>c\<close>
  is strictly greater than the clock reading minus the maximal age, and deleted, as
  older, otherwise, so also when \<open>c\<close> is the cutoff instant itself.
\<close>

theorem age_rule_strict:
  assumes "find_versions_to_clean py vs age pat False = Inr res"
    and "a \<in> set res" and "has_real_tags (version a)"
    and "re_compile py pat = Some search"
    and "\<forall>t \<in> set (get_tags (version a)). \<not> search t"
  shows "\<exists>c. created_date py (version a) = Some (Aware c) \<and>
           (if c > utcnow py - age * 1000000
            then action a = Keep \<and> reason a = TaggedNewerThan (age * 1000000)
            else action a = Delete \<and> reason a = TaggedOlderThan (age * 1000000))"
proof (rule result_groups [OF assms(1)])
  fix search' :: "string \<Rightarrow> bool" and kept :: "(int \<times> datetime) list" and ta oa
  assume g: "re_compile py pat = Some search'" "res = ta @ oa"
    "map version ta = filter has_real_tags vs"
    "map version oa = filter (Not \<circ> has_real_tags) vs"
  assume steps: "\<And>a. a \<in> set ta \<Longrightarrow> \<exists>cr. tagged_step py search' pat (age * 1000000)
                        (utcnow py - age * 1000000) (version a) = Inr (a, cr)"
  from g(1) assms(4) have s: "search' = search" by simp
  have "a \<in> set ta"
    using group_of_member(1) [OF g(2) g(3) g(4) assms(2)] assms(3) by simp
  from steps [OF this] obtain cr where
    "tagged_step py search' pat (age * 1000000) (utcnow py - age * 1000000) (version a)
       = Inr (a, cr)" ..
  then have st: "tagged_step py search pat (age * 1000000) (utcnow py - age * 1000000)
       (version a) = Inr (a, cr)"
    by (simp only: s)
  have no: "\<not> list_ex search (get_tags (version a))"
    using assms(5) by (simp add: list_ex_iff)
  from tagged_step_age [OF st no] show ?thesis .
qed

theorem age_rule_strict_witness:
  "find_versions_to_clean example_stdlib example_versions 604800 ''^keep-'' False
     = Inr example_actions \<and>
   example_actions ! 1 \<in> set example_actions \<and>
   version (example_actions ! 1) = v_at_cutoff \<and>
   has_real_tags v_at_cutoff \<and>
   get_tags v_at_cutoff = [''v1.0''] \<and>
   created_date example_stdlib v_at_cutoff
     = Some (Aware (utcnow example_stdlib - 604800 * 1000000)) \<and>
   action (example_actions ! 1) = Delete \<and>
   reason (example_actions ! 1) = TaggedOlderThan (604800 * 1000000)"
proof -
  have m: "example_actions ! 1 \<in> set example_actions"
    by (simp add: example_actions_def)
  have v: "version (example_actions ! 1) = v_at_cutoff"
    by (simp add: example_actions_def)
  have h: "has_real_tags v_at_cutoff" by code_simp
  have t: "get_tags v_at_cutoff = [''v1.0'']" by code_simp
  have c: "created_date example_stdlib v_at_cutoff
             = Some (Aware (utcnow example_stdlib - 604800 * 1000000))"
    by code_simp
  have n: "\<forall>t \<in> set (get_tags (version (example_actions ! 1))). \<not> take 5 t = ''keep-''"
    unfolding v t by simp
  from age_rule_strict [OF example_run m _ example_search n] h v c
  have "action (example_actions ! 1) = Delete \<and>
        reason (example_actions ! 1) = TaggedOlderThan (604800 * 1000000)"
    by simp
  with example_run m v h t c show ?thesis by simp
qed

text \<open>
  C5. A version whose tag list is one tag that starts with \<^verbatim>\<open>git-commit-\<close> is put into
  the potential-orphan group and not into the tagged group, and every action for it is
  one of the orphan loop: deleted as an orphan, or kept for the timestamp of a kept
  version. A version with at least one tag that is not such a single git-commit tag is
  put into the tagged group and not into the other, and every action for it is one of
  the tagged loop. In both cases the version has an action in the result.
\<close>

theorem sole_git_commit_tag_is_orphan:
  assumes "find_versions_to_clean py vs age pat False = Inr res" and "v \<in> set vs"
  shows "(\<forall>t. get_tags v = [t] \<and> git_commit_regex_match t \<longrightarrow>
            v \<in> set (snd (partition has_real_tags vs)) \<and>
            v \<notin> set (fst (partition has_real_tags vs)) \<and>
            (\<exists>a \<in> set res. version a = v) \<and>
            (\<forall>a \<in> set res. version a = v \<longrightarrow>
               (action a = Delete \<and> reason a = OrphanVersion) \<or>
               (action a = Keep \<and> (\<exists>k. reason a = MatchesKeptVersion k)))) \<and>
         (get_tags v \<noteq> [] \<and> (\<forall>t. get_tags v = [t] \<longrightarrow> \<not> git_commit_regex_match t) \<longrightarrow>
            v \<in> set (fst (partition has_real_tags vs)) \<and>
            v \<notin> set (snd (partition has_real_tags vs)) \<and>
            (\<exists>a \<in> set res. version a = v) \<and>
            (\<forall>a \<in> set res. version a = v \<longrightarrow>
               (action a = Keep \<and> reason a = MatchesKeepPattern pat) \<or>
               (action a = Keep \<and> reason a = TaggedNewerThan (age * 1000000)) \<or>
               (action a = Delete \<and> reason a = TaggedOlderThan (age * 1000000))))"
proof (rule result_groups [OF assms(1)])
  fix search :: "string \<Rightarrow> bool" and kept :: "(int \<times> datetime) list" and ta oa
  assume g: "res = ta @ oa" "map version ta = filter has_real_tags vs"
    "map version oa = filter (Not \<circ> has_real_tags) vs"
  assume tsteps: "\<And>a. a \<in> set ta \<Longrightarrow> \<exists>cr. tagged_step py search pat (age * 1000000)
                        (utcnow py - age * 1000000) (version a) = Inr (a, cr)"
  assume osteps: "\<And>a. a \<in> set oa \<Longrightarrow> orphan_step py kept (version a) = Inr a"
  note ex = member_has_action [OF g assms(2)]
  have orphan: "(action a = Delete \<and> reason a = OrphanVersion) \<or>
               (action a = Keep \<and> (\<exists>k. reason a = MatchesKeptVersion k))"
    if "a \<in> set res" "\<not> has_real_tags (version a)" for a
  proof -
    have "a \<in> set oa" using group_of_member(2) [OF g that(1)] that(2) by simp
    from osteps [OF this] show ?thesis by (rule orphan_step_reason)
  qed
  have tagged: "(action a = Keep \<and> reason a = MatchesKeepPattern pat) \<or>
               (action a = Keep \<and> reason a = TaggedNewerThan (age * 1000000)) \<or>
               (action a = Delete \<and> reason a = TaggedOlderThan (age * 1000000))"
    if "a \<in> set res" "has_real_tags (version a)" for a
  proof -
    have "a \<in> set ta" using group_of_member(1) [OF g that(1)] that(2) by simp
    from tsteps [OF this] obtain cr where
      "tagged_step py search pat (age * 1000000) (utcnow py - age * 1000000) (version a)
         = Inr (a, cr)" ..
    then show ?thesis by (rule tagged_step_reason)
  qed
  show ?thesis
  proof (intro conjI allI impI)
    fix t assume "get_tags v = [t] \<and> git_commit_regex_match t"
    then have n: "\<not> has_real_tags v" by (simp add: has_real_tags_sole_git_commit)
    show "v \<in> set (snd (partition has_real_tags vs))" using n assms(2) by simp
    show "v \<notin> set (fst (partition has_real_tags vs))" using n by simp
    show "\<exists>a \<in> set res. version a = v" by (rule ex)
    show "\<forall>a \<in> set res. version a = v \<longrightarrow>
               (action a = Delete \<and> reason a = OrphanVersion) \<or>
               (action a = Keep \<and> (\<exists>k. reason a = MatchesKeptVersion k))"
      using orphan n by blast
  next
    assume "get_tags v \<noteq> [] \<and> (\<forall>t. get_tags v = [t] \<longrightarrow> \<not> git_commit_regex_match t)"
    then have y: "has_real_tags v" by (simp add: has_real_tags_other)
    show "v \<in> set (fst (partition has_real_tags vs))" using y assms(2) by simp
    show "v \<notin> set (snd (partition has_real_tags vs))" using y by simp
    show "\<exists>a \<in> set res. version a = v" by (rule ex)
    show "\<forall>a \<in> set res. version a = v \<longrightarrow>
               (action a = Keep \<and> reason a = MatchesKeepPattern pat) \<or>
               (action a = Keep \<and> reason a = TaggedNewerThan (age * 1000000)) \<or>
               (action a = Delete \<and> reason a = TaggedOlderThan (age * 1000000))"
      using tagged y by blast
  qed
qed

theorem sole_git_commit_tag_is_orphan_witness:
  "find_versions_to_clean example_stdlib example_versions 604800 ''^keep-'' False
     = Inr example_actions \<and>
   v_git_commit \<in> set example_versions \<and>
   get_tags v_git_commit = [''git-commit-abcd''] \<and>
   git_commit_regex_match ''git-commit-abcd'' \<and>
   v_git_commit \<in> set (snd (partition has_real_tags example_versions)) \<and>
   v_git_commit \<notin> set (fst (partition has_real_tags example_versions)) \<and>
   version (example_actions ! 5) = v_git_commit \<and>
   action (example_actions ! 5) = Keep \<and>
   reason (example_actions ! 5) = MatchesKeptVersion 3 \<and>
   v_new \<in> set example_versions \<and>
   get_tags v_new = [''latest'', ''git-commit-abcd''] \<and>
   v_new \<in> set (fst (partition has_real_tags example_versions)) \<and>
   v_new \<notin> set (snd (partition has_real_tags example_versions)) \<and>
   version (example_actions ! 2) = v_new \<and>
   action (example_actions ! 2) = Keep \<and>
   reason (example_actions ! 2) = TaggedNewerThan (604800 * 1000000)"
proof -
  have m1: "v_git_commit \<in> set example_versions" by (simp add: example_versions_def)
  have t1: "get_tags v_git_commit = [''git-commit-abcd'']" by code_simp
  have g1: "git_commit_regex_match ''git-commit-abcd''" by code_simp
  have a1: "version (example_actions ! 5) = v_git_commit"
    "action (example_actions ! 5) = Keep"
    "reason (example_actions ! 5) = MatchesKeptVersion 3"
    by (simp_all add: example_actions_def)
  have m2: "v_new \<in> set example_versions" by (simp add: example_versions_def)
  have t2: "get_tags v_new = [''latest'', ''git-commit-abcd'']" by code_simp
  have a2: "version (example_actions ! 2) = v_new"
    "action (example_actions ! 2) = Keep"
    "reason (example_actions ! 2) = TaggedNewerThan (604800 * 1000000)"
    by (simp_all add: example_actions_def)
  from sole_git_commit_tag_is_orphan [OF example_run m1] t1 g1
  have p1: "v_git_commit \<in> set (snd (partition has_real_tags example_versions)) \<and>
            v_git_commit \<notin> set (fst (partition has_real_tags example_versions))"
    by blast
  from sole_git_commit_tag_is_orphan [OF example_run m2] t2
  have p2: "v_new \<in> set (fst (partition has_real_tags example_versions)) \<and>
            v_new \<notin> set (snd (partition has_real_tags example_versions))"
    by simp
  from example_run m1 t1 g1 p1 a1 m2 t2 p2 a2 show ?thesis by blast
qed

text \<open>
  C6, as amended. When the function returns, the versions of its actions are: with
  \<^verbatim>\<open>remove_all\<close> the input list as it is; without it the tagged group in input order
  followed by the potential-orphan group in input order. In both cases every input
  version appears exactly once and the result is as long as the input.
\<close>

theorem result_order:
  assumes "find_versions_to_clean py vs age pat all = Inr res"
  shows "map version res =
           (if all then vs
            else filter has_real_tags vs @ filter (Not \<circ> has_real_tags) vs) \<and>
         mset (map version res) = mset vs \<and> length res = length vs"
proof (cases all)
  case True
  with assms have "res = map (\<lambda>v. \<lparr>version = v, action = Delete, reason = MarkedByAllFlag\<rparr>) vs"
    by (simp add: find_versions_to_clean_def)
  then have "map version res = vs" by (simp add: comp_def)
  with True show ?thesis by (metis length_map)
next
  case False
  with assms have run: "find_versions_to_clean py vs age pat False = Inr res" by simp
  show ?thesis
  proof (rule result_groups [OF run])
    fix search :: "string \<Rightarrow> bool" and kept :: "(int \<times> datetime) list" and ta oa
    assume g: "res = ta @ oa" "map version ta = filter has_real_tags vs"
      "map version oa = filter (Not \<circ> has_real_tags) vs"
    have m: "map version res = filter has_real_tags vs @ filter (Not \<circ> has_real_tags) vs"
      by (simp add: g)
    have "mset (filter has_real_tags vs) + mset (filter (Not \<circ> has_real_tags) vs) = mset vs"
      by (induction vs) auto
    then have ms: "mset (map version res) = mset vs" by (simp add: m)
    then have "size (mset (map version res)) = size (mset vs)" by simp
    then have "length res = length vs" by simp
    with m ms False show ?thesis by simp
  qed
qed

theorem result_order_witness:
  "find_versions_to_clean example_stdlib example_versions 604800 ''^keep-'' False
     = Inr example_actions \<and>
   map version example_actions
     = filter has_real_tags example_versions @ filter (Not \<circ> has_real_tags) example_versions \<and>
   mset (map version example_actions) = mset example_versions \<and>
   length example_actions = length example_versions"
  using result_order [OF example_run] example_run by simp

text \<open>
  C6 as stated fails with \<^verbatim>\<open>remove_all\<close>: for an untagged version followed by a
  tagged one, the result keeps the input order, whereas the tagged group followed by the
  potential-orphan group is the other order.
\<close>

theorem result_order_counterexample:
  "find_versions_to_clean example_stdlib [v_orphan_far, v_old_keep] 604800 ''^keep-'' True
     = Inr [\<lparr>version = v_orphan_far, action = Delete, reason = MarkedByAllFlag\<rparr>,
            \<lparr>version = v_old_keep, action = Delete, reason = MarkedByAllFlag\<rparr>] \<and>
   filter has_real_tags [v_orphan_far, v_old_keep]
     @ filter (Not \<circ> has_real_tags) [v_orphan_far, v_old_keep] = [v_old_keep, v_orphan_far] \<and>
   [v_orphan_far, v_old_keep] \<noteq> [v_old_keep, v_orphan_far]"
proof -
  have 1: "find_versions_to_clean example_stdlib [v_orphan_far, v_old_keep] 604800 ''^keep-'' True
     = Inr [\<lparr>version = v_orphan_far, action = Delete, reason = MarkedByAllFlag\<rparr>,
            \<lparr>version = v_old_keep, action = Delete, reason = MarkedByAllFlag\<rparr>]"
    by (simp add: find_versions_to_clean_def)
  have h1: "has_real_tags v_old_keep" by code_simp
  have h2: "\<not> has_real_tags v_orphan_far" by code_simp
  have 2: "filter has_real_tags [v_orphan_far, v_old_keep]
     @ filter (Not \<circ> has_real_tags) [v_orphan_far, v_old_keep] = [v_old_keep, v_orphan_far]"
    by (simp add: h1 h2)
  have "id_key v_orphan_far \<noteq> id_key v_old_keep"
    by (simp add: v_orphan_far_def v_old_keep_def example_version_def)
  then have 3: "[v_orphan_far, v_old_keep] \<noteq> [v_old_keep, v_orphan_far]" by auto
  from 1 2 3 show ?thesis by blast
qed

text \<open>
  C10. An orphan that is kept is within the tolerance of a version of the tagged group
  that is kept in the same result, and its reason cites the id of that tagged version: it
  is never kept through another orphan. Moreover the action for an orphan does not
  depend on the other orphans: the function run on the tagged versions followed by
  this orphan alone returns the same actions for the tagged versions and the same action
  for the orphan.
\<close>

theorem orphans_do_not_feed_correlation:
  assumes "find_versions_to_clean py vs age pat False = Inr res"
    and "a \<in> set res" and "\<not> has_real_tags (version a)"
  shows "(action a = Keep \<longrightarrow>
            (\<exists>k \<in> set res. has_real_tags (version k) \<and> action k = Keep \<and>
               within_tolerance py (version a) (version k) \<and>
               reason a = MatchesKeptVersion (id_key (version k)))) \<and>
         find_versions_to_clean py (filter has_real_tags vs @ [version a]) age pat False
           = Inr (filter (\<lambda>k. has_real_tags (version k)) res @ [a])"
proof (rule find_versions_structure [OF assms(1)])
  fix search :: "string \<Rightarrow> bool" and kept :: "(int \<times> datetime) list" and ta
  assume td: "timedelta_seconds age = Inr (age * 1000000)"
    and dm: "datetime_minus (utcnow py) (age * 1000000) = Inr (utcnow py - age * 1000000)"
    and rc: "re_compile py pat = Some search"
    and tl: "tagged_loop py search pat (age * 1000000) (utcnow py - age * 1000000)
               (filter has_real_tags vs) [] [] = Inr (kept, ta)"
    and ol: "orphan_loop py kept (filter (Not \<circ> has_real_tags) vs) ta = Inr res"
  from orphan_loop_acts [OF ol] obtain oa where
    res: "res = ta @ oa" and
    oa: "list_all2 (\<lambda>v a. orphan_step py kept v = Inr a) (filter (Not \<circ> has_real_tags) vs) oa"
    by blast
  from tagged_loop_acts [OF tl] have
    "list_all2 (\<lambda>v a. \<exists>cr. tagged_step py search pat (age * 1000000)
                        (utcnow py - age * 1000000) v = Inr (a, cr))
       (filter has_real_tags vs) ta"
    by simp
  then have mt: "map version ta = filter has_real_tags vs" by (rule tagged_part_versions)
  have mo: "map version oa = filter (Not \<circ> has_real_tags) vs"
    by (rule orphan_part_versions [OF oa])
  have "a \<in> set oa"
    using group_of_member(2) [OF res mt mo assms(2)] assms(3) by simp
  then have st: "orphan_step py kept (version a) = Inr a" by (rule orphan_part_step [OF oa])
  have part1: "\<exists>k \<in> set res. has_real_tags (version k) \<and> action k = Keep \<and>
               within_tolerance py (version a) (version k) \<and>
               reason a = MatchesKeptVersion (id_key (version k))" if keep: "action a = Keep"
  proof (rule orphan_step_cases [OF st])
    fix oc r
    assume cd: "created_date py (version a) = Some oc" and fk: "find_kept oc kept = Inr r"
      and ar: "case r of None \<Rightarrow> action a = Delete \<and> reason a = OrphanVersion
               | Some kid \<Rightarrow> action a = Keep \<and> reason a = MatchesKeptVersion kid"
    from ar keep obtain kid where r: "r = Some kid" and ra: "reason a = MatchesKeptVersion kid"
      by (cases r) auto
    from find_kept_Some [OF fk [unfolded r]] obtain ts d where
      e: "(kid, ts) \<in> set kept" and d: "datetime_absdiff oc ts = Inr d" "d \<le> time_tolerance"
      by blast
    from tagged_loop_kept_sound [OF tl e] obtain k where
      k: "k \<in> set ta" "action k = Keep" "kept_entry py k (kid, ts)"
         "version k \<in> set (filter has_real_tags vs)"
      by auto
    from k(3) have ke: "id_key (version k) = kid" "created_date py (version k) = Some ts"
      by (auto simp: kept_entry_def)
    have w: "within_tolerance py (version a) (version k)"
      by (simp add: within_tolerance_def cd ke d)
    show ?thesis
    proof (rule bexI [of _ k])
      show "k \<in> set res" using k(1) res by simp
      show "has_real_tags (version k) \<and> action k = Keep \<and>
            within_tolerance py (version a) (version k) \<and>
            reason a = MatchesKeptVersion (id_key (version k))"
        using k(2,4) w ra ke by simp
    qed
  qed
  have part2: "find_versions_to_clean py (filter has_real_tags vs @ [version a]) age pat False
           = Inr (filter (\<lambda>k. has_real_tags (version k)) res @ [a])"
  proof -
    have p: "partition has_real_tags (filter has_real_tags vs @ [version a])
               = (filter has_real_tags vs, [version a])"
      using assms(3) by (simp add: o_def)
    have o1: "orphan_loop py kept [version a] ta = Inr (ta @ [a])"
      by (simp add: st)
    have f: "filter (\<lambda>k. has_real_tags (version k)) res = ta"
      by (rule kept_tagged_of_result(2) [OF res mt mo])
    show ?thesis
      by (simp only: find_versions_to_clean_def if_False p prod.case td dm rc tl
            sum.case option.case o1 f)
  qed
  from part1 part2 show ?thesis by blast
qed

theorem orphans_do_not_feed_correlation_witness:
  "find_versions_to_clean example_stdlib example_versions 604800 ''^keep-'' False
     = Inr example_actions \<and>
   example_actions ! 4 \<in> set example_actions \<and>
   version (example_actions ! 4) = v_orphan_near \<and>
   \<not> has_real_tags v_orphan_near \<and>
   action (example_actions ! 4) = Keep \<and>
   find_versions_to_clean example_stdlib
       (filter has_real_tags example_versions @ [v_orphan_near]) 604800 ''^keep-'' False
     = Inr (take 4 example_actions @ [example_actions ! 4])"
proof -
  have m: "example_actions ! 4 \<in> set example_actions"
    by (simp add: example_actions_def)
  have v: "version (example_actions ! 4) = v_orphan_near"
    "action (example_actions ! 4) = Keep"
    by (simp_all add: example_actions_def)
  have h: "\<not> has_real_tags v_orphan_near" by code_simp
  have f: "filter (\<lambda>k. has_real_tags (version k)) example_actions = take 4 example_actions"
    by code_simp
  have n: "\<not> has_real_tags (version (example_actions ! 4))"
    unfolding v by (rule h)
  from orphans_do_not_feed_correlation [OF example_run m n]
  have "find_versions_to_clean example_stdlib
       (filter has_real_tags example_versions @ [v_orphan_near]) 604800 ''^keep-'' False
     = Inr (take 4 example_actions @ [example_actions ! 4])"
    unfolding v f by blast
  with example_run m v h show ?thesis by blast
qed

text \<open>
  C8. The result is a function of the input list, the maximal age, the keep pattern, the
  flag and the clock reading: two runs whose clocks read the same instant, whose
  timestamp parsers agree on the creation dates of the input versions and whose compiled
  keep patterns agree on the tags of the input versions return the same result, an
  error or the same actions. Nothing else of the environment is read.
\<close>

theorem result_determined_by_inputs:
  assumes "utcnow py1 = utcnow py2"
    and "\<forall>v \<in> set vs. created_date py1 v = created_date py2 v"
    and "rel_option (\<lambda>s1 s2. \<forall>v \<in> set vs. \<forall>t \<in> set (get_tags v). s1 t = s2 t)
           (re_compile py1 pat) (re_compile py2 pat)"
  shows "find_versions_to_clean py1 vs age pat all = find_versions_to_clean py2 vs age pat all"
proof (cases "re_compile py1 pat")
  case None
  with assms(3) have n2: "re_compile py2 pat = None" by (cases "re_compile py2 pat") auto
  show ?thesis
    unfolding find_versions_to_clean_def assms(1) None n2 option.case by (rule refl)
next
  case (Some s1)
  with assms(3) obtain s2 where
    s2: "re_compile py2 pat = Some s2" and
    eq: "\<forall>v \<in> set vs. \<forall>t \<in> set (get_tags v). s1 t = s2 t"
    by (cases "re_compile py2 pat") auto
  have t: "tagged_loop py1 s1 pat d c (filter has_real_tags vs) [] []
         = tagged_loop py2 s2 pat d c (filter has_real_tags vs) [] []" for d c
    using assms(2) eq by (intro tagged_loop_cong) auto
  have o: "orphan_loop py1 kept (filter (Not \<circ> has_real_tags) vs) acts
         = orphan_loop py2 kept (filter (Not \<circ> has_real_tags) vs) acts" for kept acts
    using assms(2) by (intro orphan_loop_cong) auto
  show ?thesis
    unfolding find_versions_to_clean_def assms(1) Some s2 option.case
      partition_filter_conv prod.case t o by (rule refl)
qed

theorem result_determined_by_inputs_witness:
  "utcnow example_stdlib = utcnow example_stdlib2 \<and>
   fromisoformat example_stdlib ''1999-12-31T00:00:00'' = None \<and>
   fromisoformat example_stdlib2 ''1999-12-31T00:00:00'' = Some (Naive 63082195200000000) \<and>
   re_compile example_stdlib ''^(latest-|git-tag-)'' = None \<and>
   re_compile example_stdlib2 ''^(latest-|git-tag-)'' \<noteq> None \<and>
   find_versions_to_clean example_stdlib example_versions 604800 ''^keep-'' False
     = Inr example_actions \<and>
   find_versions_to_clean example_stdlib2 example_versions 604800 ''^keep-'' False
     = Inr example_actions"
proof -
  have 1: "utcnow example_stdlib = utcnow example_stdlib2" by code_simp
  have 2: "\<forall>v \<in> set example_versions.
             created_date example_stdlib v = created_date example_stdlib2 v"
    by code_simp
  have 3: "rel_option (\<lambda>s1 s2. \<forall>v \<in> set example_versions. \<forall>t \<in> set (get_tags v). s1 t = s2 t)
             (re_compile example_stdlib ''^keep-'') (re_compile example_stdlib2 ''^keep-'')"
    by (simp add: example_stdlib_def example_stdlib2_def example_re_compile_def)
  have 4: "fromisoformat example_stdlib ''1999-12-31T00:00:00'' = None" by code_simp
  have 5: "fromisoformat example_stdlib2 ''1999-12-31T00:00:00'' = Some (Naive 63082195200000000)"
    by (simp add: example_stdlib2_def)
  have 6: "re_compile example_stdlib ''^(latest-|git-tag-)'' = None" by code_simp
  have 7: "re_compile example_stdlib2 ''^(latest-|git-tag-)'' \<noteq> None"
    by (simp add: example_stdlib2_def)
  from result_determined_by_inputs [OF 1 2 3, of 604800 False] example_run
  have "find_versions_to_clean example_stdlib2 example_versions 604800 ''^keep-'' False
     = Inr example_actions"
    by simp
  with 1 4 5 6 7 example_run show ?thesis by blast
qed

section \<open>The claims about the command and the removal\<close>

text \<open>
  C7, as amended. Take a run whose keep pattern does not compile. Without the
  \<^verbatim>\<open>--all\<close> flag the versions are listed first, and the pattern is compiled only after
  the listing has succeeded: the command is the listing followed by an error, which is
  the listing's own error when the listing fails, \<^verbatim>\<open>OverflowError\<close> when the maximal
  age is out of the range of \<^verbatim>\<open>timedelta\<close> or of the cutoff date (both are computed
  before the pattern is compiled), and the error of the pattern otherwise. So whenever
  the command returns, it returns an error and has sent no DELETE request, and a listing
  that succeeded has sent at least one GET request before the error of the pattern
  surfaces. With \<^verbatim>\<open>--all=yes-remove-all\<close> the pattern is never compiled: the command
  runs as it does with any other pattern and any other standard library. With any other
  value of \<^verbatim>\<open>--all\<close> the command exits with status 1 before the listing.
\<close>

theorem invalid_pattern_surfaces_after_listing:
  assumes "re_compile py (keep_tags_pattern args) = None"
  shows "(all_flag args = None \<longrightarrow>
            cleanup_versions_command args (list_versions req) (find_versions_to_clean py)
                (remove_version req) w =
              (case list_versions req (namespace args) (package args) w of
                 None \<Rightarrow> None
               | Some (Inl e, w1) \<Rightarrow> Some (Inl e, w1)
               | Some (Inr vs, w1) \<Rightarrow>
                   (case timedelta_seconds (tagged_max_age args) of
                      Inl e \<Rightarrow> Some (Inl OverflowError, w1)
                    | Inr delta \<Rightarrow>
                        (case datetime_minus (utcnow py) delta of
                           Inl e \<Rightarrow> Some (Inl OverflowError, w1)
                         | Inr cutoff \<Rightarrow> Some (Inl ReError, w1)))) \<and>
            (\<forall>r w'. cleanup_versions_command args (list_versions req)
                       (find_versions_to_clean py) (remove_version req) w = Some (r, w') \<longrightarrow>
               (\<exists>e. r = Inl e) \<and>
               (\<exists>evs. events w' = events w @ evs \<and> (\<forall>u t. HttpDelete u t \<notin> set evs))) \<and>
            (\<forall>vs w1. list_versions req (namespace args) (package args) w = Some (Inr vs, w1) \<longrightarrow>
               (\<exists>evs u t. events w1 = events w @ evs \<and> HttpGet u t \<in> set evs))) \<and>
         (all_flag args = Some ''yes-remove-all'' \<longrightarrow>
            (\<forall>py' p. cleanup_versions_command args (list_versions req)
                        (find_versions_to_clean py) (remove_version req) w =
                      cleanup_versions_command (args\<lparr>keep_tags_pattern := p\<rparr>)
                        (list_versions req) (find_versions_to_clean py') (remove_version req) w)) \<and>
         (all_flag args \<noteq> None \<and> all_flag args \<noteq> Some ''yes-remove-all'' \<longrightarrow>
            cleanup_versions_command args (list_versions req) (find_versions_to_clean py)
                (remove_version req) w = Some (Inl (SystemExit 1), w))"
proof (intro conjI impI allI)
  assume n: "all_flag args = None"
  show "cleanup_versions_command args (list_versions req) (find_versions_to_clean py)
                (remove_version req) w =
              (case list_versions req (namespace args) (package args) w of
                 None \<Rightarrow> None
               | Some (Inl e, w1) \<Rightarrow> Some (Inl e, w1)
               | Some (Inr vs, w1) \<Rightarrow>
                   (case timedelta_seconds (tagged_max_age args) of
                      Inl e \<Rightarrow> Some (Inl OverflowError, w1)
                    | Inr delta \<Rightarrow>
                        (case datetime_minus (utcnow py) delta of
                           Inl e \<Rightarrow> Some (Inl OverflowError, w1)
                         | Inr cutoff \<Rightarrow> Some (Inl ReError, w1))))"
    by (rule cleanup_bad_pattern [OF assms n])
next
  fix r w'
  assume n: "all_flag args = None"
    and c: "cleanup_versions_command args (list_versions req) (find_versions_to_clean py)
              (remove_version req) w = Some (r, w')"
  from cleanup_bad_pattern_fails [OF assms n c]
  show "\<exists>e. r = Inl e"
    and "\<exists>evs. events w' = events w @ evs \<and> (\<forall>u t. HttpDelete u t \<notin> set evs)"
    by blast+
next
  fix vs w1
  assume "list_versions req (namespace args) (package args) w = Some (Inr vs, w1)"
  from list_versions_events [OF this]
  show "\<exists>evs u t. events w1 = events w @ evs \<and> HttpGet u t \<in> set evs" by blast
next
  fix py' p
  assume "all_flag args = Some ''yes-remove-all''"
  then show "cleanup_versions_command args (list_versions req)
                        (find_versions_to_clean py) (remove_version req) w =
                      cleanup_versions_command (args\<lparr>keep_tags_pattern := p\<rparr>)
                        (list_versions req) (find_versions_to_clean py') (remove_version req) w"
    by (rule cleanup_remove_all_ignores_pattern)
next
  assume "all_flag args \<noteq> None \<and> all_flag args \<noteq> Some ''yes-remove-all''"
  then show "cleanup_versions_command args (list_versions req) (find_versions_to_clean py)
                (remove_version req) w = Some (Inl (SystemExit 1), w)"
    by (simp add: cleanup_bad_flag)
qed

theorem invalid_pattern_surfaces_after_listing_witness:
  "re_compile example_stdlib (keep_tags_pattern example_args) = None \<and>
   all_flag example_args = None \<and>
   events example_world = [] \<and>
   cleanup_versions_command example_args (list_versions example_requests)
       (find_versions_to_clean example_stdlib) (remove_version example_requests) example_world
     = Some (Inl ReError, example_world_listed) \<and>
   cleanup_versions_command (example_args\<lparr>tagged_max_age := 86400000000000\<rparr>)
       (list_versions example_requests) (find_versions_to_clean example_stdlib)
       (remove_version example_requests) example_world
     = Some (Inl OverflowError, example_world_listed) \<and>
   cleanup_versions_command example_args (list_versions failing_requests)
       (find_versions_to_clean example_stdlib) (remove_version failing_requests) example_world
     = Some (Inl (HTTPError 500),
         example_world\<lparr>provider_token := Some ''secret'',
           events := [HttpGet ''https://api.github.com/user/acme/packages/container/app/versions?per_page=100'' ''secret'']\<rparr>) \<and>
   cleanup_versions_command (example_args\<lparr>all_flag := Some ''yes-remove-all''\<rparr>)
       (list_versions example_requests) (find_versions_to_clean example_stdlib)
       (remove_version example_requests) example_world
     = cleanup_versions_command
         (example_args\<lparr>all_flag := Some ''yes-remove-all'', keep_tags_pattern := ''^keep-''\<rparr>)
         (list_versions example_requests) (find_versions_to_clean example_stdlib2)
         (remove_version example_requests) example_world \<and>
   cleanup_versions_command (example_args\<lparr>all_flag := Some ''yes''\<rparr>)
       (list_versions example_requests) (find_versions_to_clean example_stdlib)
       (remove_version example_requests) example_world
     = Some (Inl (SystemExit 1), example_world)"
proof -
  have bad: "re_compile example_stdlib (keep_tags_pattern example_args) = None" by code_simp
  have none: "all_flag example_args = None" by code_simp
  have ev: "events example_world = []" by code_simp
  have td: "timedelta_seconds (tagged_max_age example_args) = Inr 604800000000" by code_simp
  have dm: "datetime_minus (utcnow example_stdlib) 604800000000 = Inr 63839664000000000"
    by code_simp
  from invalid_pattern_surfaces_after_listing [OF bad, of example_requests example_world] none
  have "cleanup_versions_command example_args (list_versions example_requests)
          (find_versions_to_clean example_stdlib) (remove_version example_requests) example_world
        = (case list_versions example_requests (namespace example_args) (package example_args)
                  example_world of
             None \<Rightarrow> None
           | Some (Inl e, w1) \<Rightarrow> Some (Inl e, w1)
           | Some (Inr vs, w1) \<Rightarrow>
               (case timedelta_seconds (tagged_max_age example_args) of
                  Inl e \<Rightarrow> Some (Inl OverflowError, w1)
                | Inr delta \<Rightarrow>
                    (case datetime_minus (utcnow example_stdlib) delta of
                       Inl e \<Rightarrow> Some (Inl OverflowError, w1)
                     | Inr cutoff \<Rightarrow> Some (Inl ReError, w1))))"
    by blast
  then have 1: "cleanup_versions_command example_args (list_versions example_requests)
       (find_versions_to_clean example_stdlib) (remove_version example_requests) example_world
     = Some (Inl ReError, example_world_listed)"
    by (simp add: example_listing_args td dm)
  let ?big = "example_args\<lparr>tagged_max_age := 86400000000000\<rparr>"
  have bad2: "re_compile example_stdlib (keep_tags_pattern ?big) = None" by code_simp
  have none2: "all_flag ?big = None" by code_simp
  have td2: "timedelta_seconds (tagged_max_age ?big) = Inl OverflowError" by code_simp
  have l2: "list_versions example_requests (namespace ?big) (package ?big) example_world
     = Some (Inr example_versions, example_world_listed)"
    using example_listing_args by simp
  from invalid_pattern_surfaces_after_listing [OF bad2, of example_requests example_world] none2
  have "cleanup_versions_command ?big (list_versions example_requests)
          (find_versions_to_clean example_stdlib) (remove_version example_requests) example_world
        = (case list_versions example_requests (namespace ?big) (package ?big) example_world of
             None \<Rightarrow> None
           | Some (Inl e, w1) \<Rightarrow> Some (Inl e, w1)
           | Some (Inr vs, w1) \<Rightarrow>
               (case timedelta_seconds (tagged_max_age ?big) of
                  Inl e \<Rightarrow> Some (Inl OverflowError, w1)
                | Inr delta \<Rightarrow>
                    (case datetime_minus (utcnow example_stdlib) delta of
                       Inl e \<Rightarrow> Some (Inl OverflowError, w1)
                     | Inr cutoff \<Rightarrow> Some (Inl ReError, w1))))"
    by blast
  then have 2: "cleanup_versions_command ?big (list_versions example_requests)
       (find_versions_to_clean example_stdlib) (remove_version example_requests) example_world
     = Some (Inl OverflowError, example_world_listed)"
    unfolding l2 td2 by simp
  from invalid_pattern_surfaces_after_listing [OF bad, of failing_requests example_world] none
  have "cleanup_versions_command example_args (list_versions failing_requests)
          (find_versions_to_clean example_stdlib) (remove_version failing_requests) example_world
        = (case list_versions failing_requests (namespace example_args) (package example_args)
                  example_world of
             None \<Rightarrow> None
           | Some (Inl e, w1) \<Rightarrow> Some (Inl e, w1)
           | Some (Inr vs, w1) \<Rightarrow>
               (case timedelta_seconds (tagged_max_age example_args) of
                  Inl e \<Rightarrow> Some (Inl OverflowError, w1)
                | Inr delta \<Rightarrow>
                    (case datetime_minus (utcnow example_stdlib) delta of
                       Inl e \<Rightarrow> Some (Inl OverflowError, w1)
                     | Inr cutoff \<Rightarrow> Some (Inl ReError, w1))))"
    by blast
  then have 3: "cleanup_versions_command example_args (list_versions failing_requests)
       (find_versions_to_clean example_stdlib) (remove_version failing_requests) example_world
     = Some (Inl (HTTPError 500),
         example_world\<lparr>provider_token := Some ''secret'',
           events := [HttpGet ''https://api.github.com/user/acme/packages/container/app/versions?per_page=100'' ''secret'']\<rparr>)"
    unfolding failing_listing_args by simp
  let ?all = "example_args\<lparr>all_flag := Some ''yes-remove-all''\<rparr>"
  have bad4: "re_compile example_stdlib (keep_tags_pattern ?all) = None" by code_simp
  have all4: "all_flag ?all = Some ''yes-remove-all''" by simp
  from invalid_pattern_surfaces_after_listing [OF bad4, of example_requests example_world] all4
  have "cleanup_versions_command ?all (list_versions example_requests)
          (find_versions_to_clean example_stdlib) (remove_version example_requests) example_world
        = cleanup_versions_command (?all\<lparr>keep_tags_pattern := ''^keep-''\<rparr>)
            (list_versions example_requests) (find_versions_to_clean example_stdlib2)
            (remove_version example_requests) example_world"
    by blast
  then have 4: "cleanup_versions_command ?all
       (list_versions example_requests) (find_versions_to_clean example_stdlib)
       (remove_version example_requests) example_world
     = cleanup_versions_command
         (example_args\<lparr>all_flag := Some ''yes-remove-all'', keep_tags_pattern := ''^keep-''\<rparr>)
         (list_versions example_requests) (find_versions_to_clean example_stdlib2)
         (remove_version example_requests) example_world"
    by simp
  let ?yes = "example_args\<lparr>all_flag := Some ''yes''\<rparr>"
  have bad5: "re_compile example_stdlib (keep_tags_pattern ?yes) = None" by code_simp
  have f5: "all_flag ?yes \<noteq> None \<and> all_flag ?yes \<noteq> Some ''yes-remove-all''" by simp
  from invalid_pattern_surfaces_after_listing [OF bad5, of example_requests example_world] f5
  have 5: "cleanup_versions_command ?yes (list_versions example_requests)
       (find_versions_to_clean example_stdlib) (remove_version example_requests) example_world
     = Some (Inl (SystemExit 1), example_world)"
    by blast
  from bad none ev 1 2 3 4 5 show ?thesis by blast
qed

text \<open>
  C7 as stated fails: with the keep pattern \<^verbatim>\<open>(\<close>, which does not compile, the
  command starts from a world without events and ends with the error of the pattern
  after two GET requests to the registry.
\<close>

theorem invalid_pattern_counterexample:
  "re_compile example_stdlib (keep_tags_pattern example_args) = None \<and>
   events example_world = [] \<and>
   cleanup_versions_command example_args (list_versions example_requests)
       (find_versions_to_clean example_stdlib) (remove_version example_requests) example_world
     = Some (Inl ReError,
         example_world\<lparr>provider_token := Some ''secret'',
           events := [HttpGet ''https://api.github.com/user/acme/packages/container/app/versions?per_page=100'' ''secret'',
                      HttpGet ''https://api.github.com/page/2'' ''secret'']\<rparr>)"
  by code_simp

text \<open>
  C9. With \<^verbatim>\<open>dry_run\<close> set, \<^verbatim>\<open>remove_version\<close> returns \<^verbatim>\<open>True\<close> and leaves the world as
  it is, for every namespace, package and version id: no request is sent, the GitHub CLI
  is not run and the token provider is not touched. The same holds for the loop of the
  command over any list of versions.
\<close>

theorem dry_run_does_nothing:
  "remove_version req ns pkg vid True w = (Inr True, w) \<and>
   remove_each (remove_version req) ns pkg True vs w = (Inr (), w)"
  by (simp add: remove_version_def remove_each_dry_run)

end
